theory Spec2Isabelle
  imports Main "HOL-Library.Char_ord" "HOL-Library.List_Lexorder" "HOL-Library.AList"
begin

section \<open>Entity model read by the cabling pass\<close>

text \<open>
  The part of the entity model that \<open>NetworkImporter.import_cabling_from_configs\<close>
  (network_importer/main.py) reads: the inventory \<open>self.devs.inventory.hosts\<close>, a dict
  from host name to device; each device has a dict \<open>interfaces\<close> from interface name to
  interface; an interface has the flag \<open>is_virtual\<close> and the handle \<open>remote\<close>, which is
  None or the record of the system of record with \<open>id\<close>, \<open>connection_status\<close> and the
  nullable \<open>connected_endpoint\<close> (\<open>.device.name\<close>, \<open>.name\<close>).
\<close>

record remote_intf =
  rid :: nat
  connection_status :: bool
  connected_endpoint :: "(string \<times> string) option"

record intf =
  is_virtual :: bool
  remote :: "remote_intf option"

record device =
  interfaces :: "string \<rightharpoonup> intf"

text \<open>
  A row of the layer-3 edge frame: \<open>link.Interface\<close> and \<open>link.Remote_Interface\<close>, each
  with \<open>hostname\<close> and \<open>interface\<close>. The interface field is the one value handed to
  \<open>re.sub\<close>, which raises TypeError on anything that is not a string: \<open>None\<close> stands for
  such a value, \<open>Some s\<close> for the string \<open>s\<close>.
\<close>

record edge_end =
  hostname :: string
  interface :: "string option"

record link =
  Interface :: edge_end
  Remote_Interface :: edge_end

datatype exn = TypeError | AttributeError | RequestError

section \<open>Canonical link key\<close>

definition is_digit :: "char \<Rightarrow> bool" where
  "is_digit c = (c \<in> set ''0123456789'')"

text \<open>
  \<open>strip_end s\<close>: \<open>s\<close> without a suffix made of a dot and one or more digits that reaches
  the end of \<open>s\<close>; \<open>s\<close> itself when there is no such suffix.
\<close>

definition strip_end :: "string \<Rightarrow> string" where
  "strip_end s =
     (let r = rev s; ds = takeWhile is_digit r; rest = dropWhile is_digit r
      in (case rest of
            [] \<Rightarrow> s
          | c # before \<Rightarrow> if ds \<noteq> [] \<and> c = CHR ''.'' then rev before else s))"

text \<open>
  \<open>re.sub("\.\d+$", "", s)\<close>. Without re.MULTILINE, \<open>$\<close> matches at the end of the
  string and also just before a newline that is the last character, so the suffix is
  looked for before that newline when there is one.
\<close>

definition re_sub_subif :: "string \<Rightarrow> string" where
  "re_sub_subif s =
     (if s \<noteq> [] \<and> last s = CHR 0x0A then strip_end (butlast s) @ [CHR 0x0A]
      else strip_end s)"

definition endpoint_str :: "string \<Rightarrow> string \<Rightarrow> string" where
  "endpoint_str h i = h @ '':'' @ i"

text \<open>\<open>sorted([a, b])\<close> on two strings, compared by code point.\<close>

definition sorted2 :: "string \<Rightarrow> string \<Rightarrow> string list" where
  "sorted2 a b = (if b < a then [b, a] else [a, b])"

fun join :: "string \<Rightarrow> string list \<Rightarrow> string" where
  "join sep [] = []"
| "join sep [x] = x"
| "join sep (x # y # ys) = x @ sep @ join sep (y # ys)"

definition unique_id :: "string \<Rightarrow> string \<Rightarrow> string \<Rightarrow> string \<Rightarrow> string" where
  "unique_id local_host local_intf remote_host remote_intf =
     join ''_'' (sorted2 (endpoint_str local_host local_intf)
                         (endpoint_str remote_host remote_intf))"

text \<open>
  Lines 526 to 533, before the \<open>try\<close>: the four names and the key of one row, or the
  exception that \<open>re.sub\<close> raises.
\<close>

definition canonicalize :: "link \<Rightarrow> exn + (string \<times> string \<times> string \<times> string \<times> string)" where
  "canonicalize l =
     (let local_host = hostname (Interface l) in
      case interface (Interface l) of
        None \<Rightarrow> Inl TypeError
      | Some li \<Rightarrow>
          let local_intf = re_sub_subif li;
              remote_host = hostname (Remote_Interface l) in
          (case interface (Remote_Interface l) of
             None \<Rightarrow> Inl TypeError
           | Some ri \<Rightarrow>
               let remote_intf = re_sub_subif ri in
               Inr (local_host, local_intf, remote_host, remote_intf,
                    unique_id local_host local_intf remote_host remote_intf)))"

definition reversed :: "link \<Rightarrow> link" where
  "reversed l = \<lparr>Interface = Remote_Interface l, Remote_Interface = Interface l\<rparr>"

definition mk_link :: "string \<Rightarrow> string \<Rightarrow> string \<Rightarrow> string \<Rightarrow> link" where
  "mk_link ha ia hb ib =
     \<lparr>Interface = \<lparr>hostname = ha, interface = Some ia\<rparr>,
      Remote_Interface = \<lparr>hostname = hb, interface = Some ib\<rparr>\<rparr>"

definition link_key :: "link \<Rightarrow> string option" where
  "link_key l = (case canonicalize l of Inl e \<Rightarrow> None | Inr (lh, li, rh, ri, k) \<Rightarrow> Some k)"

section \<open>The cabling pass\<close>

text \<open>
  What the pass can change: the inventory (kept in the state so that what the pass
  leaves alone can be stated), the local dict \<open>already_connected_links\<close>, and the system
  of record. The system of record is seen through \<open>self.nb.dcim.cables.create\<close> alone:
  \<open>nb_log\<close> lists the calls made so far, each with the pair
  (termination_a_id, termination_b_id) and whether the call returned (True) or raised
  (False). Whether a call returns is up to the system of record: \<open>nb_api\<close> decides it
  from the calls made before and the request.
\<close>

record state =
  hosts :: "string \<rightharpoonup> device"
  already_connected_links :: "string \<rightharpoonup> nat"
  nb_log :: "((nat \<times> nat) \<times> bool) list"

type_synonym nb_api = "((nat \<times> nat) \<times> bool) list \<Rightarrow> nat \<times> nat \<Rightarrow> bool"

text \<open>
  What the pass does with one row, named after the log call of its branch:
  \<open>AlreadyProcessed\<close> line 538, \<open>HostNotPresent\<close> 542 and 545, \<open>IntfNotPresent\<close> 552
  and 557, \<open>VirtualIntf\<close> 563 and 568, \<open>RemoteNotPresent\<close> 574 and 579,
  \<open>DeviceMismatch\<close> 594 and 616 (end, reported device, observed device),
  \<open>IntfMismatch\<close> 601 and 623 (end, reported interface, observed interface),
  \<open>AlreadyConnected\<close> the silent \<open>continue\<close> of 605 and 627, \<open>Created\<close> the call of
  633 that returned, \<open>Fault\<close> the handler of 641.
\<close>

datatype outcome =
    AlreadyProcessed string
  | HostNotPresent string
  | IntfNotPresent string string
  | VirtualIntf string string
  | RemoteNotPresent string string
  | DeviceMismatch string string string string
  | IntfMismatch string string string string
  | AlreadyConnected
  | Created nat nat
  | Fault string

fun is_created :: "outcome \<Rightarrow> bool" where
  "is_created (Created a b) = True"
| "is_created oc = False"

fun is_conflict :: "outcome \<Rightarrow> bool" where
  "is_conflict (DeviceMismatch h i r ob) = True"
| "is_conflict (IntfMismatch h i r ob) = True"
| "is_conflict oc = False"

fun is_skip :: "outcome \<Rightarrow> bool" where
  "is_skip (AlreadyProcessed k) = True"
| "is_skip (HostNotPresent h) = True"
| "is_skip (IntfNotPresent h i) = True"
| "is_skip (VirtualIntf h i) = True"
| "is_skip (RemoteNotPresent h i) = True"
| "is_skip oc = False"

text \<open>
  Lines 586 to 605, and again lines 608 to 627 with the two ends exchanged: the end
  \<open>h:i\<close> whose record \<open>r\<close> has a true \<open>connection_status\<close> is compared with the other
  end \<open>oh:oi\<close> of the row. Reading \<open>.device\<close> of a \<open>connected_endpoint\<close> that is None
  raises AttributeError.
\<close>

definition connected_branch ::
  "string \<Rightarrow> string \<Rightarrow> remote_intf \<Rightarrow> string \<Rightarrow> string \<Rightarrow> exn + outcome" where
  "connected_branch h i r oh oi =
     (case connected_endpoint r of
        None \<Rightarrow> Inl AttributeError
      | Some (host_reported, int_reported) \<Rightarrow>
          if host_reported \<noteq> oh then Inr (DeviceMismatch h i host_reported oh)
          else if host_reported = oh \<and> oi \<noteq> int_reported
          then Inr (IntfMismatch h i int_reported oi)
          else Inr AlreadyConnected)"

text \<open>
  The body of the \<open>try\<close>, lines 537 to 640: the state it leaves, and the exception it
  raises or the branch it took.
\<close>

definition process_link ::
  "nb_api \<Rightarrow> state \<Rightarrow> string \<Rightarrow> string \<Rightarrow> string \<Rightarrow> string \<Rightarrow> string \<Rightarrow> state \<times> (exn + outcome)" where
  "process_link nb s local_host local_intf remote_host remote_intf uid =
     (if already_connected_links s uid \<noteq> None then (s, Inr (AlreadyProcessed uid))
      else case hosts s local_host of
        None \<Rightarrow> (s, Inr (HostNotPresent local_host))
      | Some local_obj \<Rightarrow>
      (case hosts s remote_host of
        None \<Rightarrow> (s, Inr (HostNotPresent remote_host))
      | Some remote_obj \<Rightarrow>
      (case interfaces local_obj local_intf of
        None \<Rightarrow> (s, Inr (IntfNotPresent local_host local_intf))
      | Some la \<Rightarrow>
      (case interfaces remote_obj remote_intf of
        None \<Rightarrow> (s, Inr (IntfNotPresent remote_host remote_intf))
      | Some ra \<Rightarrow>
        if is_virtual la then (s, Inr (VirtualIntf local_host local_intf))
        else if is_virtual ra then (s, Inr (VirtualIntf remote_host remote_intf))
        else (case remote la of
          None \<Rightarrow> (s, Inr (RemoteNotPresent local_host local_intf))
        | Some lr \<Rightarrow>
        (case remote ra of
          None \<Rightarrow> (s, Inr (RemoteNotPresent remote_host remote_intf))
        | Some rr \<Rightarrow>
          if connection_status lr
          then (s, connected_branch local_host local_intf lr remote_host remote_intf)
          else if connection_status rr
          then (s, connected_branch remote_host remote_intf rr local_host local_intf)
          else if nb (nb_log s) (rid lr, rid rr)
          then (s\<lparr>already_connected_links := (already_connected_links s)(uid \<mapsto> 1),
                  nb_log := nb_log s @ [((rid lr, rid rr), True)]\<rparr>,
                Inr (Created (rid lr) (rid rr)))
          else (s\<lparr>nb_log := nb_log s @ [((rid lr, rid rr), False)]\<rparr>,
                Inl RequestError)))))))"

text \<open>The \<open>try\<close> with its handler, lines 535 to 645: any exception becomes a log line.\<close>

definition try_link ::
  "nb_api \<Rightarrow> state \<Rightarrow> string \<Rightarrow> string \<Rightarrow> string \<Rightarrow> string \<Rightarrow> string \<Rightarrow> state \<times> outcome" where
  "try_link nb s local_host local_intf remote_host remote_intf uid =
     (case process_link nb s local_host local_intf remote_host remote_intf uid of
        (s', Inl e) \<Rightarrow> (s', Fault uid)
      | (s', Inr oc) \<Rightarrow> (s', oc))"

text \<open>
  The \<open>for\<close> loop of line 524: the state after the rows it went through, what it did
  with each of them, and the exception that left the loop, if one did. The names and the
  key are computed before the \<open>try\<close>, so an exception there leaves the loop.
\<close>

fun cabling_loop :: "nb_api \<Rightarrow> state \<Rightarrow> link list \<Rightarrow> state \<times> outcome list \<times> exn option" where
  "cabling_loop nb s [] = (s, [], None)"
| "cabling_loop nb s (l # ls) =
     (case canonicalize l of
        Inl e \<Rightarrow> (s, [], Some e)
      | Inr (local_host, local_intf, remote_host, remote_intf, uid) \<Rightarrow>
          (case try_link nb s local_host local_intf remote_host remote_intf uid of
             (s', oc) \<Rightarrow>
               (case cabling_loop nb s' ls of
                  (s'', ocs, r) \<Rightarrow> (s'', oc # ocs, r))))"

datatype retval = RetFalse | RetNone | Raised exn

text \<open>
  \<open>import_cabling_from_configs\<close>: \<open>import_cabling\<close> is \<open>config.main["import_cabling"]\<close>,
  \<open>ls\<close> the rows of \<open>self.bf.q.layer3Edges().answer().frame()\<close>, \<open>h\<close> the inventory and
  \<open>lg\<close> the calls the system of record has seen before.
\<close>

definition import_cabling_from_configs ::
  "bool \<Rightarrow> nb_api \<Rightarrow> (string \<rightharpoonup> device) \<Rightarrow> ((nat \<times> nat) \<times> bool) list \<Rightarrow> link list
     \<Rightarrow> state \<times> outcome list \<times> retval" where
  "import_cabling_from_configs import_cabling nb h lg ls =
     (let s0 = \<lparr>hosts = h, already_connected_links = Map.empty, nb_log = lg\<rparr> in
      if \<not> import_cabling then (s0, [], RetFalse)
      else (case cabling_loop nb s0 ls of
              (s, ocs, None) \<Rightarrow> (s, ocs, RetNone)
            | (s, ocs, Some e) \<Rightarrow> (s, ocs, Raised e)))"

text \<open>Reading the inventory: the interface \<open>host:i\<close>, and its remote record.\<close>

definition lookup_intf :: "(string \<rightharpoonup> device) \<Rightarrow> string \<Rightarrow> string \<Rightarrow> intf option" where
  "lookup_intf h host i = (case h host of None \<Rightarrow> None | Some d \<Rightarrow> interfaces d i)"

definition lookup_remote :: "(string \<rightharpoonup> device) \<Rightarrow> string \<Rightarrow> string \<Rightarrow> remote_intf option" where
  "lookup_remote h host i = (case lookup_intf h host i of None \<Rightarrow> None | Some x \<Rightarrow> remote x)"

text \<open>
  A row is already connected in the inventory \<open>h\<close>: both its ends are interfaces with a
  remote record, and each record has a true \<open>connection_status\<close> and the other end as
  its \<open>connected_endpoint\<close>.
\<close>

definition link_connected :: "(string \<rightharpoonup> device) \<Rightarrow> link \<Rightarrow> bool" where
  "link_connected h l =
     (case canonicalize l of
        Inl e \<Rightarrow> False
      | Inr (lh, li, rh, ri, uid) \<Rightarrow>
          (case (lookup_remote h lh li, lookup_remote h rh ri) of
             (Some a, Some b) \<Rightarrow>
               connection_status a \<and> connected_endpoint a = Some (rh, ri) \<and>
               connection_status b \<and> connected_endpoint b = Some (lh, li)
           | _ \<Rightarrow> False))"

text \<open>
  The number of cables created for the key \<open>k\<close>: the rows of \<open>ls\<close> with that key whose
  outcome in \<open>ocs\<close> is \<open>Created\<close>.
\<close>

definition creates_for :: "string \<Rightarrow> link list \<Rightarrow> outcome list \<Rightarrow> nat" where
  "creates_for k ls ocs =
     length (filter (\<lambda>(l, oc). link_key l = Some k \<and> is_created oc) (zip ls ocs))"

text \<open>
  A row reaches the comparison of the remote states (line 585): its key is not in
  \<open>already_connected_links\<close>, both its ends are interfaces of the inventory, neither is
  virtual and both have a remote record.
\<close>

definition passes_validation :: "state \<Rightarrow> string \<Rightarrow> string \<Rightarrow> string \<Rightarrow> string \<Rightarrow> string \<Rightarrow> bool" where
  "passes_validation s lh li rh ri uid =
     (already_connected_links s uid = None \<and>
      (case (lookup_intf (hosts s) lh li, lookup_intf (hosts s) rh ri) of
         (Some a, Some b) \<Rightarrow>
           \<not> is_virtual a \<and> \<not> is_virtual b \<and> remote a \<noteq> None \<and> remote b \<noteq> None
       | _ \<Rightarrow> False))"

definition intf_virtual :: "(string \<rightharpoonup> device) \<Rightarrow> string \<Rightarrow> string \<Rightarrow> bool" where
  "intf_virtual h host i = (case lookup_intf h host i of None \<Rightarrow> False | Some x \<Rightarrow> is_virtual x)"

text \<open>
  The inventory \<open>h\<close> with other connection data in the remote record of \<open>host:i\<close>
  (nothing changes when there is no such record).
\<close>

definition set_connection ::
  "(string \<rightharpoonup> device) \<Rightarrow> string \<Rightarrow> string \<Rightarrow> bool \<Rightarrow> (string \<times> string) option \<Rightarrow> (string \<rightharpoonup> device)" where
  "set_connection h host i cs ep =
     (case h host of
        None \<Rightarrow> h
      | Some d \<Rightarrow>
          (case interfaces d i of
             None \<Rightarrow> h
           | Some x \<Rightarrow>
               (case remote x of
                  None \<Rightarrow> h
                | Some r \<Rightarrow>
                    h(host \<mapsto> d\<lparr>interfaces := (interfaces d)(i \<mapsto>
                        x\<lparr>remote := Some (r\<lparr>connection_status := cs,
                                              connected_endpoint := ep\<rparr>)\<rparr>)\<rparr>))))"

subsection \<open>Inventories of the scenarios\<close>

text \<open>
  Two switches with one port Gi0/1 each, as in the scenarios of the specification: with
  both ports free, with a cable between them recorded at both ends, with the port of sw1
  recorded as cabled to a third device, with the port of sw1 virtual, and with a record
  of sw1 that says connected and names no endpoint.
\<close>

definition free_port :: "nat \<Rightarrow> intf" where
  "free_port n = \<lparr>is_virtual = False,
     remote = Some \<lparr>rid = n, connection_status = False, connected_endpoint = None\<rparr>\<rparr>"

definition cabled_port :: "nat \<Rightarrow> string \<Rightarrow> string \<Rightarrow> intf" where
  "cabled_port n h i = \<lparr>is_virtual = False,
     remote = Some \<lparr>rid = n, connection_status = True, connected_endpoint = Some (h, i)\<rparr>\<rparr>"

definition one_port :: "intf \<Rightarrow> device" where
  "one_port x = \<lparr>interfaces = [''Gi0/1'' \<mapsto> x]\<rparr>"

definition inv_free :: "string \<rightharpoonup> device" where
  "inv_free = [''sw1'' \<mapsto> one_port (free_port 1), ''sw2'' \<mapsto> one_port (free_port 2)]"

definition inv_cabled :: "string \<rightharpoonup> device" where
  "inv_cabled = [''sw1'' \<mapsto> one_port (cabled_port 1 ''sw2'' ''Gi0/1''),
                 ''sw2'' \<mapsto> one_port (cabled_port 2 ''sw1'' ''Gi0/1'')]"

definition inv_other :: "string \<rightharpoonup> device" where
  "inv_other = [''sw1'' \<mapsto> one_port (cabled_port 1 ''sw3'' ''Gi0/1''),
                ''sw2'' \<mapsto> one_port (free_port 2)]"

definition inv_virtual :: "string \<rightharpoonup> device" where
  "inv_virtual = [''sw1'' \<mapsto> one_port ((free_port 1)\<lparr>is_virtual := True\<rparr>),
                  ''sw2'' \<mapsto> one_port (free_port 2)]"

definition inv_broken :: "string \<rightharpoonup> device" where
  "inv_broken = [''sw1'' \<mapsto> one_port \<lparr>is_virtual = False,
                     remote = Some \<lparr>rid = 1, connection_status = True,
                                    connected_endpoint = None\<rparr>\<rparr>,
                 ''sw2'' \<mapsto> one_port (free_port 2),
                 ''sw3'' \<mapsto> one_port (free_port 3)]"

definition init_state :: "(string \<rightharpoonup> device) \<Rightarrow> state" where
  "init_state h = \<lparr>hosts = h, already_connected_links = Map.empty, nb_log = []\<rparr>"

definition accept_all :: nb_api where
  "accept_all lg req = True"

definition reject_first :: nb_api where
  "reject_first lg req = (lg \<noteq> [])"

definition both_ways :: "link list" where
  "both_ways = [mk_link ''sw1'' ''Gi0/1'' ''sw2'' ''Gi0/1'',
                mk_link ''sw2'' ''Gi0/1'' ''sw1'' ''Gi0/1'']"

definition broken_then_good :: "link list" where
  "broken_then_good = [mk_link ''sw1'' ''Gi0/1'' ''sw2'' ''Gi0/1'',
                       mk_link ''sw2'' ''Gi0/1'' ''sw3'' ''Gi0/1'']"

definition malformed_then_good :: "link list" where
  "malformed_then_good =
     [\<lparr>Interface = \<lparr>hostname = ''sw1'', interface = None\<rparr>,
       Remote_Interface = \<lparr>hostname = ''sw2'', interface = Some ''Gi0/1''\<rparr>\<rparr>,
      mk_link ''sw1'' ''Gi0/1'' ''sw2'' ''Gi0/1'']"

text \<open>
  The requests of the cables created: the pairs of remote ids of the \<open>Created\<close> outcomes,
  in the order of the rows.
\<close>

fun created_of :: "outcome list \<Rightarrow> (nat \<times> nat) list" where
  "created_of [] = []"
| "created_of (Created a b # ocs) = (a, b) # created_of ocs"
| "created_of (oc # ocs) = created_of ocs"

text \<open>The state in which the loop, started in \<open>s\<close>, takes up the row of index \<open>i\<close>.\<close>

definition state_before :: "nb_api \<Rightarrow> state \<Rightarrow> link list \<Rightarrow> nat \<Rightarrow> state" where
  "state_before nb s ls i = fst (cabling_loop nb s (take i ls))"

section \<open>The VLAN registry of a site\<close>

text \<open>
  \<open>site.vlans\<close> is a dict from VLAN id to VLAN object (\<open>site.vlans.keys()\<close> is tested
  against \<open>vlan["vlan_id"]\<close> at line 296, \<open>site.vlans.values()\<close> is listed at line 445):
  here the list of its items in insertion order, so that the number of entries of one
  VLAN id can be counted.
\<close>

record vlan =
  vid :: int
  vlan_name :: string
  exists_locally :: bool
  exists_remotely :: bool

record site =
  site_name :: string
  vlans :: "(int \<times> vlan) list"

datatype source = ConfigSource | CliSource

text \<open>
  Modelled from the spec: \<open>add_vlan\<close> of the site registry, defined in
  network_importer/model.py, which is not among the sources. Section 4.3: the first
  insertion for a VLAN id creates the Vlan with \<open>exists_locally\<close> true; a later insertion
  for the same id keeps the existing entry, does not duplicate it, and takes the new
  name when the new source is considered authoritative (\<open>authoritative\<close>, a parameter).
  Section 4.1: insertion from a local source sets \<open>exists_locally\<close> and leaves
  \<open>exists_remotely\<close> alone.
\<close>

definition add_vlan :: "(source \<Rightarrow> bool) \<Rightarrow> site \<Rightarrow> int \<Rightarrow> string \<Rightarrow> source \<Rightarrow> site" where
  "add_vlan authoritative st v nm src =
     (case map_of (vlans st) v of
        None \<Rightarrow>
          st\<lparr>vlans := vlans st @
            [(v, \<lparr>vid = v, vlan_name = nm, exists_locally = True, exists_remotely = False\<rparr>)]\<rparr>
      | Some old \<Rightarrow>
          st\<lparr>vlans := AList.update v
            (old\<lparr>vlan_name := (if authoritative src then nm else vlan_name old),
                 exists_locally := True\<rparr>) (vlans st)\<rparr>)"

text \<open>\<open>str\<close> of an integer, for the f-string of line 259.\<close>

fun str_nat :: "nat \<Rightarrow> string" where
  "str_nat n =
     (if n < 10 then [''0123456789'' ! n]
      else str_nat (n div 10) @ [''0123456789'' ! (n mod 10)])"

definition str_int :: "int \<Rightarrow> string" where
  "str_int i = (if i < 0 then ''-'' @ str_nat (nat (- i)) else str_nat (nat i))"

text \<open>
  Lines 252 to 260 of \<open>import_devices_from_configs\<close>, for the site of one device:
  \<open>import_vlans\<close> is \<open>config.main["import_vlans"]\<close>, \<open>vids\<close> the VLAN ids of the
  \<open>switchedVlanProperties\<close> answer.
\<close>

definition import_vlans_from_configs ::
  "string \<Rightarrow> (source \<Rightarrow> bool) \<Rightarrow> site \<Rightarrow> int list \<Rightarrow> site" where
  "import_vlans_from_configs import_vlans authoritative st vids =
     (if import_vlans = ''config''
      then foldl (\<lambda>s v. add_vlan authoritative s v (''vlan-'' @ str_int v) ConfigSource) st vids
      else st)"

text \<open>
  Lines 276 to 307 of \<open>import_devices_from_cmds\<close>, for the site of one device whose
  task returned the VLANs \<open>vs\<close>: a VLAN whose id is not a key of \<open>site.vlans\<close> goes to
  \<open>add_vlan\<close> and then to \<open>add_vlan2\<close>; a VLAN whose id is a key is left out. \<open>add_vlan2\<close>
  is in neither the sources nor the specification: it is a parameter.
\<close>

record cli_vlan =
  vlan_id :: int
  name :: string

definition import_vlans_from_cmds ::
  "string \<Rightarrow> (source \<Rightarrow> bool) \<Rightarrow> (site \<Rightarrow> int \<Rightarrow> string \<Rightarrow> site) \<Rightarrow> site \<Rightarrow> cli_vlan list \<Rightarrow> site" where
  "import_vlans_from_cmds import_vlans authoritative add_vlan2 st vs =
     (if import_vlans = ''cli''
      then foldl (\<lambda>s v.
             if map_of (vlans s) (vlan_id v) = None
             then add_vlan2 (add_vlan authoritative s (vlan_id v) (name v) CliSource)
                    (vlan_id v) (name v)
             else s) st vs
      else st)"

text \<open>The number of entries of the VLAN id \<open>v\<close> in the registry of a site.\<close>

definition vlan_count :: "site \<Rightarrow> int \<Rightarrow> nat" where
  "vlan_count st v = length (filter (\<lambda>p. fst p = v) (vlans st))"

definition dc1 :: site where
  "dc1 = \<lparr>site_name = ''dc1'', vlans = []\<rparr>"

section \<open>Properties of the key\<close>

lemma sorted2_commute: "sorted2 a b = sorted2 b a"
  unfolding sorted2_def by (auto simp: not_less dest: less_asym)

lemma unique_id_commute: "unique_id ha ia hb ib = unique_id hb ib ha ia"
  unfolding unique_id_def by (simp add: sorted2_commute [of "endpoint_str ha ia"])

lemma strip_end_suffix:
  assumes "ds \<noteq> []" and "\<forall>c \<in> set ds. is_digit c"
  shows "strip_end (p @ CHR ''.'' # ds) = p"
proof -
  have nd: "\<not> is_digit CHR ''.''" by (simp add: is_digit_def)
  have r: "rev (p @ CHR ''.'' # ds) = rev ds @ CHR ''.'' # rev p" by simp
  have all: "\<And>x. x \<in> set (rev ds) \<Longrightarrow> is_digit x" using assms(2) by simp
  have "takeWhile is_digit (rev ds @ CHR ''.'' # rev p) =
        rev ds @ takeWhile is_digit (CHR ''.'' # rev p)"
    by (rule takeWhile_append2) (rule all)
  then have tw: "takeWhile is_digit (rev ds @ CHR ''.'' # rev p) = rev ds"
    using nd by simp
  have "dropWhile is_digit (rev ds @ CHR ''.'' # rev p) =
        dropWhile is_digit (CHR ''.'' # rev p)"
    by (rule dropWhile_append2) (rule all)
  then have dw: "dropWhile is_digit (rev ds @ CHR ''.'' # rev p) = CHR ''.'' # rev p"
    using nd by simp
  show ?thesis
    unfolding strip_end_def r Let_def tw dw using assms(1) by simp
qed

lemma re_sub_subif_suffix:
  assumes "ds \<noteq> []" and "\<forall>c \<in> set ds. is_digit c"
  shows "re_sub_subif (p @ CHR ''.'' # ds) = p"
proof -
  have "last (p @ CHR ''.'' # ds) = last ds" using assms(1) by simp
  moreover have "is_digit (last ds)" using assms by simp
  ultimately have "last (p @ CHR ''.'' # ds) \<noteq> CHR 0x0A"
    by (auto simp: is_digit_def)
  then show ?thesis
    unfolding re_sub_subif_def using strip_end_suffix [OF assms] by simp
qed

lemma canonicalize_reversed:
  "canonicalize l = Inr (lh, li, rh, ri, k) \<Longrightarrow>
   canonicalize (reversed l) = Inr (rh, ri, lh, li, k)"
  unfolding canonicalize_def reversed_def
  by (auto simp: Let_def unique_id_commute split: option.splits)

text \<open>
  C3. The key of a row is the two strings host:interface, each interface name without
  its trailing subinterface suffix (a dot and digits), sorted and joined by an
  underscore. The key of the row (A, B) is the key of the row (B, A), a name made of a
  physical name, a dot and digits canonicalizes to the physical name, and so two
  subinterfaces of one port give one key (Gi0/1.100 and Gi0/1.200 give Gi0/1).
\<close>

theorem canonical_link_key:
  "link_key (mk_link ha ia hb ib) =
     Some (join ''_'' (sorted2 (ha @ '':'' @ re_sub_subif ia) (hb @ '':'' @ re_sub_subif ib)))
   \<and> link_key (mk_link ha ia hb ib) = link_key (mk_link hb ib ha ia)
   \<and> link_key (reversed l) = link_key l
   \<and> (ds \<noteq> [] \<and> (\<forall>c \<in> set ds. is_digit c) \<and> ds' \<noteq> [] \<and> (\<forall>c \<in> set ds'. is_digit c) \<longrightarrow>
        re_sub_subif (p @ CHR ''.'' # ds) = p
      \<and> link_key (mk_link ha (p @ CHR ''.'' # ds) hb ib) =
        link_key (mk_link ha (p @ CHR ''.'' # ds') hb ib))
   \<and> re_sub_subif ''Gi0/1.100'' = ''Gi0/1'' \<and> re_sub_subif ''Gi0/1.200'' = ''Gi0/1''"
proof (intro conjI impI)
  show "link_key (mk_link ha ia hb ib) =
     Some (join ''_'' (sorted2 (ha @ '':'' @ re_sub_subif ia) (hb @ '':'' @ re_sub_subif ib)))"
    by (simp add: link_key_def canonicalize_def mk_link_def unique_id_def endpoint_str_def
        Let_def)
  show "link_key (mk_link ha ia hb ib) = link_key (mk_link hb ib ha ia)"
    by (simp add: link_key_def canonicalize_def mk_link_def Let_def
        unique_id_commute [of ha "re_sub_subif ia"])
  show "link_key (reversed l) = link_key l"
  proof (cases "canonicalize l")
    case (Inl e)
    then have "canonicalize (reversed l) = Inl TypeError"
      unfolding canonicalize_def reversed_def
      by (auto simp: Let_def split: option.splits)
    with Inl show ?thesis by (simp add: link_key_def)
  next
    case (Inr t)
    obtain lh li rh ri k where t: "t = (lh, li, rh, ri, k)" by (cases t) auto
    show ?thesis
      using Inr canonicalize_reversed [of l lh li rh ri k] unfolding t
      by (simp add: link_key_def)
  qed
next
  assume a: "ds \<noteq> [] \<and> (\<forall>c \<in> set ds. is_digit c) \<and> ds' \<noteq> [] \<and> (\<forall>c \<in> set ds'. is_digit c)"
  then show "re_sub_subif (p @ CHR ''.'' # ds) = p"
    by (simp add: re_sub_subif_suffix)
  from a have "re_sub_subif (p @ CHR ''.'' # ds) = p" "re_sub_subif (p @ CHR ''.'' # ds') = p"
    by (simp_all add: re_sub_subif_suffix)
  then show "link_key (mk_link ha (p @ CHR ''.'' # ds) hb ib) =
        link_key (mk_link ha (p @ CHR ''.'' # ds') hb ib)"
    by (simp add: link_key_def canonicalize_def mk_link_def Let_def)
next
  have d1: "\<forall>c \<in> set ''100''. is_digit c" by (simp add: is_digit_def)
  have d2: "\<forall>c \<in> set ''200''. is_digit c" by (simp add: is_digit_def)
  show "re_sub_subif ''Gi0/1.100'' = ''Gi0/1''"
    using re_sub_subif_suffix [of "''100''" "''Gi0/1''", OF _ d1] by simp
  show "re_sub_subif ''Gi0/1.200'' = ''Gi0/1''"
    using re_sub_subif_suffix [of "''200''" "''Gi0/1''", OF _ d2] by simp
qed

theorem canonical_link_key_witness:
  "''100'' \<noteq> [] \<and> list_all is_digit ''100'' \<and> ''200'' \<noteq> [] \<and> list_all is_digit ''200''
   \<and> link_key (mk_link ''sw1'' ''Gi0/1.100'' ''sw2'' ''Gi0/2'') =
     link_key (mk_link ''sw1'' ''Gi0/1.200'' ''sw2'' ''Gi0/2'')
   \<and> link_key (mk_link ''sw1'' ''Gi0/1.100'' ''sw2'' ''Gi0/2'') = Some ''sw1:Gi0/1_sw2:Gi0/2''"
proof -
  have h: "''100'' \<noteq> [] \<and> (\<forall>c \<in> set ''100''. is_digit c) \<and> ''200'' \<noteq> [] \<and> (\<forall>c \<in> set ''200''. is_digit c)"
    by (simp add: is_digit_def)
  have k: "link_key (mk_link ''sw1'' ''Gi0/1.100'' ''sw2'' ''Gi0/2'') = Some ''sw1:Gi0/1_sw2:Gi0/2''"
    by (simp add: link_key_def canonicalize_def mk_link_def unique_id_def endpoint_str_def
        sorted2_def re_sub_subif_def strip_end_def is_digit_def Let_def)
  have e0: "link_key (mk_link ''sw1'' (''Gi0/1'' @ CHR ''.'' # ''100'') ''sw2'' ''Gi0/2'') =
     link_key (mk_link ''sw1'' (''Gi0/1'' @ CHR ''.'' # ''200'') ''sw2'' ''Gi0/2'')"
    using canonical_link_key [where ha = "''sw1''" and ia = "''Gi0/1.100''" and hb = "''sw2''"
      and ib = "''Gi0/2''" and ds = "''100''" and ds' = "''200''" and p = "''Gi0/1''"
      and l = "mk_link ''sw1'' ''Gi0/1.100'' ''sw2'' ''Gi0/2''"] h
    by blast
  have e: "link_key (mk_link ''sw1'' ''Gi0/1.100'' ''sw2'' ''Gi0/2'') =
     link_key (mk_link ''sw1'' ''Gi0/1.200'' ''sw2'' ''Gi0/2'')"
    using e0 by simp
  have la: "list_all is_digit ''100''" "list_all is_digit ''200''"
    by (simp_all add: is_digit_def)
  show ?thesis using la e k by simp
qed


section \<open>One row\<close>

lemmas row_defs = try_link_def process_link_def connected_branch_def lookup_intf_def
  lookup_remote_def passes_validation_def intf_virtual_def

lemmas run_defs = import_cabling_from_configs_def canonicalize_def mk_link_def unique_id_def
  endpoint_str_def sorted2_def re_sub_subif_def strip_end_def is_digit_def Let_def
  try_link_def process_link_def connected_branch_def inv_free_def inv_cabled_def
  inv_other_def inv_virtual_def inv_broken_def one_port_def free_port_def cabled_port_def
  accept_all_def reject_first_def both_ways_def init_state_def

lemma process_link_cases:
  assumes "process_link nb s lh li rh ri uid = (s', r)"
  shows "(s' = s \<and> (\<exists>oc. r = Inr oc \<and> \<not> is_created oc))
       \<or> (s' = s \<and> r = Inl AttributeError)
       \<or> (\<exists>req. r = Inl RequestError \<and> already_connected_links s uid = None
             \<and> s' = s\<lparr>nb_log := nb_log s @ [(req, False)]\<rparr>)
       \<or> (\<exists>a b. r = Inr (Created a b) \<and> already_connected_links s uid = None
             \<and> s' = s\<lparr>already_connected_links := (already_connected_links s)(uid \<mapsto> 1),
                       nb_log := nb_log s @ [((a, b), True)]\<rparr>)"
  using assms unfolding process_link_def connected_branch_def
  by (auto split: option.splits if_splits)

lemma try_link_cases:
  assumes "try_link nb s lh li rh ri uid = (s', oc)"
  shows "(s' = s \<and> \<not> is_created oc)
       \<or> (\<exists>req. oc = Fault uid \<and> already_connected_links s uid = None
             \<and> s' = s\<lparr>nb_log := nb_log s @ [(req, False)]\<rparr>)
       \<or> (\<exists>a b. oc = Created a b \<and> already_connected_links s uid = None
             \<and> s' = s\<lparr>already_connected_links := (already_connected_links s)(uid \<mapsto> 1),
                       nb_log := nb_log s @ [((a, b), True)]\<rparr>)"
proof -
  obtain r where p: "process_link nb s lh li rh ri uid = (s', r)"
    and o: "oc = (case r of Inl e \<Rightarrow> Fault uid | Inr x \<Rightarrow> x)"
    using assms unfolding try_link_def by (auto split: prod.splits sum.splits)
  from process_link_cases [OF p] o show ?thesis by auto
qed

lemma loop_frame:
  "cabling_loop nb s ls = (s', ocs, r) \<Longrightarrow>
     hosts s' = hosts s \<and> (\<exists>reqs. nb_log s' = nb_log s @ reqs)
     \<and> (\<forall>k. already_connected_links s k \<noteq> None \<longrightarrow> already_connected_links s' k \<noteq> None)
     \<and> length ocs \<le> length ls \<and> (r = None \<longrightarrow> length ocs = length ls)"
proof (induction ls arbitrary: s s' ocs r)
  case Nil
  then show ?case by simp
next
  case (Cons l ls)
  show ?case
  proof (cases "canonicalize l")
    case (Inl e)
    with Cons.prems show ?thesis by auto
  next
    case (Inr t)
    obtain lh li rh ri uid where t: "t = (lh, li, rh, ri, uid)" by (cases t) auto
    obtain s1 oc where tl: "try_link nb s lh li rh ri uid = (s1, oc)" by fastforce
    obtain s2 ocs2 r2 where lp: "cabling_loop nb s1 ls = (s2, ocs2, r2)"
      by (cases "cabling_loop nb s1 ls") auto
    from Cons.prems Inr t tl lp have eq: "s' = s2" "ocs = oc # ocs2" "r = r2" by simp_all
    from try_link_cases [OF tl]
    have st: "hosts s1 = hosts s \<and> (\<exists>reqs. nb_log s1 = nb_log s @ reqs)
       \<and> (\<forall>k. already_connected_links s k \<noteq> None \<longrightarrow> already_connected_links s1 k \<noteq> None)"
      by auto
    from Cons.IH [OF lp] st eq show ?thesis by auto
  qed
qed

lemma loop_marked:
  "already_connected_links s k \<noteq> None \<Longrightarrow> cabling_loop nb s ls = (s', ocs, r) \<Longrightarrow>
     creates_for k ls ocs = 0"
proof (induction ls arbitrary: s s' ocs r)
  case Nil
  then show ?case by (simp add: creates_for_def)
next
  case (Cons l ls)
  show ?case
  proof (cases "canonicalize l")
    case (Inl e)
    with Cons.prems show ?thesis by (simp add: creates_for_def)
  next
    case (Inr t)
    obtain lh li rh ri uid where t: "t = (lh, li, rh, ri, uid)" by (cases t) auto
    obtain s1 oc where tl: "try_link nb s lh li rh ri uid = (s1, oc)" by fastforce
    obtain s2 ocs2 r2 where lp: "cabling_loop nb s1 ls = (s2, ocs2, r2)"
      by (cases "cabling_loop nb s1 ls") auto
    from Cons.prems Inr t tl lp have eq: "s' = s2" "ocs = oc # ocs2" "r = r2" by simp_all
    have key: "link_key l = Some uid" using Inr t by (simp add: link_key_def)
    from try_link_cases [OF tl] Cons.prems(1)
    have m1: "already_connected_links s1 k \<noteq> None" by auto
    from try_link_cases [OF tl] Cons.prems(1)
    have nc: "\<not> (uid = k \<and> is_created oc)" by auto
    from Cons.IH [OF m1 lp] have "creates_for k ls ocs2 = 0" .
    with nc key eq show ?thesis by (auto simp: creates_for_def)
  qed
qed

lemma loop_creates_le1:
  "cabling_loop nb s ls = (s', ocs, r) \<Longrightarrow> creates_for k ls ocs \<le> 1"
proof (induction ls arbitrary: s s' ocs r)
  case Nil
  then show ?case by (simp add: creates_for_def)
next
  case (Cons l ls)
  show ?case
  proof (cases "canonicalize l")
    case (Inl e)
    with Cons.prems show ?thesis by (simp add: creates_for_def)
  next
    case (Inr t)
    obtain lh li rh ri uid where t: "t = (lh, li, rh, ri, uid)" by (cases t) auto
    obtain s1 oc where tl: "try_link nb s lh li rh ri uid = (s1, oc)" by fastforce
    obtain s2 ocs2 r2 where lp: "cabling_loop nb s1 ls = (s2, ocs2, r2)"
      by (cases "cabling_loop nb s1 ls") auto
    from Cons.prems Inr t tl lp have eq: "s' = s2" "ocs = oc # ocs2" "r = r2" by simp_all
    have key: "link_key l = Some uid" using Inr t by (simp add: link_key_def)
    show ?thesis
    proof (cases "uid = k \<and> is_created oc")
      case True
      with try_link_cases [OF tl] have "already_connected_links s1 k \<noteq> None" by auto
      from loop_marked [OF this lp] have "creates_for k ls ocs2 = 0" .
      with True key eq show ?thesis by (simp add: creates_for_def)
    next
      case False
      from Cons.IH [OF lp] have "creates_for k ls ocs2 \<le> 1" .
      with False key eq show ?thesis by (auto simp: creates_for_def)
    qed
  qed
qed


text \<open>
  C4. A row one of whose ends is a virtual interface creates no cable: it is skipped,
  the state is left as it was (no request reaches the system of record), and the
  diagnostic is one of those issued before the remote records are looked at: key
  already processed, host or interface not present, or virtual interface.
\<close>

theorem virtual_exclusion:
  "intf_virtual (hosts s) lh li \<or> intf_virtual (hosts s) rh ri \<Longrightarrow>
   \<exists>oc. try_link nb s lh li rh ri uid = (s, oc) \<and> \<not> is_created oc \<and>
     oc \<in> {AlreadyProcessed uid, HostNotPresent lh, HostNotPresent rh, IntfNotPresent lh li,
            IntfNotPresent rh ri, VirtualIntf lh li, VirtualIntf rh ri}"
  unfolding row_defs by (auto split: option.splits)

theorem virtual_exclusion_witness:
  "(intf_virtual (hosts (init_state inv_virtual)) ''sw1'' ''Gi0/1''
     \<or> intf_virtual (hosts (init_state inv_virtual)) ''sw2'' ''Gi0/1'')
   \<and> try_link accept_all (init_state inv_virtual) ''sw1'' ''Gi0/1'' ''sw2'' ''Gi0/1''
        ''sw1:Gi0/1_sw2:Gi0/1'' = (init_state inv_virtual, VirtualIntf ''sw1'' ''Gi0/1'')"
proof -
  have h: "intf_virtual (hosts (init_state inv_virtual)) ''sw1'' ''Gi0/1''
     \<or> intf_virtual (hosts (init_state inv_virtual)) ''sw2'' ''Gi0/1''"
    by (simp add: intf_virtual_def lookup_intf_def run_defs)
  have e: "snd (try_link accept_all (init_state inv_virtual) ''sw1'' ''Gi0/1'' ''sw2'' ''Gi0/1''
        ''sw1:Gi0/1_sw2:Gi0/1'') = VirtualIntf ''sw1'' ''Gi0/1''"
    by (simp add: run_defs)
  from virtual_exclusion [OF h, of accept_all "''sw1:Gi0/1_sw2:Gi0/1''"] e h
  show ?thesis by auto
qed

text \<open>
  C6. A row with a host that is not in the inventory, an interface that is not in its
  device's interfaces, or an interface without remote record is skipped with a
  diagnostic: no cable is created and the state is left as it was.
\<close>

theorem validation_skips:
  "hosts s lh = None \<or> hosts s rh = None \<or> lookup_intf (hosts s) lh li = None
   \<or> lookup_intf (hosts s) rh ri = None \<or> lookup_remote (hosts s) lh li = None
   \<or> lookup_remote (hosts s) rh ri = None \<Longrightarrow>
   \<exists>oc. try_link nb s lh li rh ri uid = (s, oc) \<and> is_skip oc \<and> \<not> is_created oc"
  unfolding row_defs by (auto split: option.splits)

theorem validation_skips_witness:
  "hosts (init_state inv_free) ''sw9'' = None
   \<and> try_link accept_all (init_state inv_free) ''sw1'' ''Gi0/1'' ''sw9'' ''Gi0/1''
        ''sw1:Gi0/1_sw9:Gi0/1'' = (init_state inv_free, HostNotPresent ''sw9'')"
proof -
  have h: "hosts (init_state inv_free) ''sw9'' = None" by (simp add: run_defs)
  have e: "snd (try_link accept_all (init_state inv_free) ''sw1'' ''Gi0/1'' ''sw9'' ''Gi0/1''
        ''sw1:Gi0/1_sw9:Gi0/1'') = HostNotPresent ''sw9''"
    by (simp add: run_defs)
  from validation_skips [of "init_state inv_free" "''sw1''" "''sw9''" "''Gi0/1''" "''Gi0/1''"
      accept_all "''sw1:Gi0/1_sw9:Gi0/1''"] h e
  show ?thesis by auto
qed

section \<open>The sequence of rows\<close>

lemma connected_no_create:
  "lookup_remote (hosts s) lh li = Some ra \<Longrightarrow> connection_status ra \<Longrightarrow>
   \<exists>oc. try_link nb s lh li rh ri uid = (s, oc) \<and> \<not> is_created oc"
  unfolding row_defs by (auto split: option.splits prod.splits)

lemma process_link_no_fault:
  "process_link nb s lh li rh ri uid = (s', Inr oc) \<Longrightarrow> oc \<noteq> Fault k"
  unfolding process_link_def connected_branch_def
  by (auto split: option.splits prod.splits if_splits)

lemma try_link_fault_key: "try_link nb s lh li rh ri uid = (s', Fault k) \<Longrightarrow> k = uid"
  unfolding try_link_def using process_link_no_fault
  by (auto split: prod.splits sum.splits)

lemma link_connected_local:
  assumes "link_connected h l"
  shows "\<exists>lh li rh ri uid ra. canonicalize l = Inr (lh, li, rh, ri, uid)
     \<and> lookup_remote h lh li = Some ra \<and> connection_status ra"
proof (cases "canonicalize l")
  case (Inl e)
  with assms show ?thesis by (simp add: link_connected_def)
next
  case (Inr t)
  obtain lh li rh ri uid where t: "t = (lh, li, rh, ri, uid)" by (cases t) auto
  from assms Inr t have c: "(case (lookup_remote h lh li, lookup_remote h rh ri) of
             (Some a, Some b) \<Rightarrow>
               connection_status a \<and> connected_endpoint a = Some (rh, ri) \<and>
               connection_status b \<and> connected_endpoint b = Some (lh, li)
           | _ \<Rightarrow> False)"
    by (simp add: link_connected_def)
  show ?thesis
  proof (cases "lookup_remote h lh li")
    case None
    with c show ?thesis by simp
  next
    case (Some ra)
    with c have "connection_status ra" by (cases "lookup_remote h rh ri") simp_all
    with Some Inr t show ?thesis by simp
  qed
qed

lemma loop_connected:
  "\<forall>l \<in> set ls. link_connected (hosts s) l \<Longrightarrow> cabling_loop nb s ls = (s', ocs, r) \<Longrightarrow>
   (\<forall>oc \<in> set ocs. \<not> is_created oc) \<and> s' = s"
proof (induction ls arbitrary: ocs)
  case Nil
  then show ?case by simp
next
  case (Cons l ls)
  from Cons.prems(1) have lc: "link_connected (hosts s) l" by simp
  from link_connected_local [OF lc]
  obtain lh li rh ri uid ra where c: "canonicalize l = Inr (lh, li, rh, ri, uid)"
    and a: "lookup_remote (hosts s) lh li = Some ra" "connection_status ra"
    by blast
  from connected_no_create [OF a] obtain oc where
    tl: "try_link nb s lh li rh ri uid = (s, oc)" and nc: "\<not> is_created oc" by blast
  obtain s2 ocs2 r2 where lp: "cabling_loop nb s ls = (s2, ocs2, r2)"
    using prod_cases3 by blast
  have step: "cabling_loop nb s (l # ls) = (s2, oc # ocs2, r2)"
    by (simp add: c tl lp)
  with Cons.prems(2) have eq: "s' = s2" "ocs = oc # ocs2" "r = r2" by simp_all
  from Cons.prems(1) have rest: "\<forall>l \<in> set ls. link_connected (hosts s) l" by simp
  from lp eq have lp': "cabling_loop nb s ls = (s', ocs2, r)" by simp
  from Cons.IH [OF rest lp'] nc eq show ?case by simp
qed

lemma canonicalize_strings:
  assumes "interface (Interface l) = Some a" "interface (Remote_Interface l) = Some b"
  shows "\<exists>lh li rh ri uid. canonicalize l = Inr (lh, li, rh, ri, uid)"
  unfolding canonicalize_def Let_def using assms by simp

lemma loop_complete:
  assumes "\<forall>l \<in> set ls. interface (Interface l) \<noteq> None \<and> interface (Remote_Interface l) \<noteq> None"
  shows "\<exists>s' ocs. cabling_loop nb s ls = (s', ocs, None)
     \<and> list_all2 (\<lambda>l oc. \<forall>k. oc = Fault k \<longrightarrow> link_key l = Some k) ls ocs"
  using assms
proof (induction ls arbitrary: s)
  case Nil
  then show ?case by simp
next
  case (Cons l ls)
  from Cons.prems obtain a b where ab: "interface (Interface l) = Some a"
    "interface (Remote_Interface l) = Some b" by auto
  from canonicalize_strings [OF ab]
  obtain lh li rh ri uid where c: "canonicalize l = Inr (lh, li, rh, ri, uid)" by blast
  have key: "link_key l = Some uid" by (simp add: link_key_def c)
  obtain s1 oc where tl: "try_link nb s lh li rh ri uid = (s1, oc)"
    using prod.exhaust by blast
  from Cons.prems have rest: "\<forall>l \<in> set ls. interface (Interface l) \<noteq> None \<and> interface (Remote_Interface l) \<noteq> None"
    by simp
  from Cons.IH [OF rest, of s1] obtain s2 ocs2 where
    lp: "cabling_loop nb s1 ls = (s2, ocs2, None)"
    and fk: "list_all2 (\<lambda>l oc. \<forall>k. oc = Fault k \<longrightarrow> link_key l = Some k) ls ocs2" by blast
  have fk1: "\<forall>k. oc = Fault k \<longrightarrow> link_key l = Some k"
  proof (intro allI impI)
    fix k assume "oc = Fault k"
    with tl have "try_link nb s lh li rh ri uid = (s1, Fault k)" by simp
    from try_link_fault_key [OF this] key show "link_key l = Some k" by simp
  qed
  have step: "cabling_loop nb s (l # ls) = (s2, oc # ocs2, None)"
    by (simp add: c tl lp)
  from step fk fk1 show ?case by simp
qed

lemma try_link_local_connected:
  assumes "hosts s lh = Some dl" "interfaces dl li = Some xl" "remote xl = Some ra"
    "connection_status ra" "hosts s rh = Some dr" "interfaces dr ri = Some xr"
  shows "try_link nb s lh li rh ri uid =
     (s, if already_connected_links s uid \<noteq> None then AlreadyProcessed uid
         else if is_virtual xl then VirtualIntf lh li
         else if is_virtual xr then VirtualIntf rh ri
         else if remote xr = None then RemoteNotPresent rh ri
         else (case connected_branch lh li ra rh ri of Inl e \<Rightarrow> Fault uid | Inr oc \<Rightarrow> oc))"
  unfolding try_link_def process_link_def using assms
  by (simp split: option.splits sum.splits)

lemma connected_branch_end:
  "connected_branch h i r oh oi = Inr oc \<Longrightarrow>
   (\<exists>d. oc = DeviceMismatch h i d oh) \<or> (\<exists>n. oc = IntfMismatch h i n oi) \<or> oc = AlreadyConnected"
  unfolding connected_branch_def by (auto split: option.splits if_splits)

lemma local_connected_outcome:
  "lookup_remote (hosts s) lh li = Some ra \<Longrightarrow> connection_status ra \<Longrightarrow>
   \<exists>oc. try_link nb s lh li rh ri uid = (s, oc) \<and>
     (is_skip oc \<or> oc = Fault uid \<or> (\<exists>d. oc = DeviceMismatch lh li d rh)
      \<or> (\<exists>n. oc = IntfMismatch lh li n ri) \<or> oc = AlreadyConnected)"
  unfolding row_defs by (auto split: option.splits prod.splits)

lemma set_connection_absent:
  "\<not> (\<exists>d x r. h host = Some d \<and> interfaces d i = Some x \<and> remote x = Some r) \<Longrightarrow>
   set_connection h host i cs ep = h"
  unfolding set_connection_def by (auto split: option.splits)

text \<open>
  C10. When the remote record of the local end A says connected, the record of the far
  end B is not looked at: whatever connection status and connected endpoint B's record
  holds, the row has the same outcome and leaves the state as it was, and the outcome is
  never a mismatch reported at B. (A and B are different interfaces.)
\<close>

theorem one_sided_inspection:
  assumes a: "lookup_remote (hosts s) lh li = Some ra" "connection_status ra"
    and ne: "(lh, li) \<noteq> (rh, ri)"
  shows "\<exists>oc. try_link nb s lh li rh ri uid = (s, oc)
     \<and> try_link nb (s\<lparr>hosts := set_connection (hosts s) rh ri cs ep\<rparr>) lh li rh ri uid =
         (s\<lparr>hosts := set_connection (hosts s) rh ri cs ep\<rparr>, oc)
     \<and> (\<forall>d ob. oc \<noteq> DeviceMismatch rh ri d ob \<and> oc \<noteq> IntfMismatch rh ri d ob)"
proof -
  from local_connected_outcome [OF a, of nb rh ri uid] obtain oc where
    t: "try_link nb s lh li rh ri uid = (s, oc)"
    and k: "is_skip oc \<or> oc = Fault uid \<or> (\<exists>d. oc = DeviceMismatch lh li d rh)
      \<or> (\<exists>n. oc = IntfMismatch lh li n ri) \<or> oc = AlreadyConnected" by blast
  have third: "\<forall>d ob. oc \<noteq> DeviceMismatch rh ri d ob \<and> oc \<noteq> IntfMismatch rh ri d ob"
    using k ne by auto
  have second: "try_link nb (s\<lparr>hosts := set_connection (hosts s) rh ri cs ep\<rparr>) lh li rh ri uid =
         (s\<lparr>hosts := set_connection (hosts s) rh ri cs ep\<rparr>, oc)"
  proof (cases "\<exists>d x r. hosts s rh = Some d \<and> interfaces d ri = Some x \<and> remote x = Some r")
    case False
    have "s\<lparr>hosts := set_connection (hosts s) rh ri cs ep\<rparr> = s"
      using set_connection_absent [of "hosts s" rh ri cs ep] False by simp
    with t show ?thesis by simp
  next
    case True
    then obtain d x r where dr: "hosts s rh = Some d" "interfaces d ri = Some x"
      "remote x = Some r" by blast
    from a obtain dl xl where dl: "hosts s lh = Some dl" "interfaces dl li = Some xl"
      "remote xl = Some ra"
      unfolding lookup_remote_def lookup_intf_def by (auto split: option.splits)
    define x' where "x' = x\<lparr>remote := Some (r\<lparr>connection_status := cs, connected_endpoint := ep\<rparr>)\<rparr>"
    define d' where "d' = d\<lparr>interfaces := (interfaces d)(ri \<mapsto> x')\<rparr>"
    define s' where "s' = s\<lparr>hosts := (hosts s)(rh \<mapsto> d')\<rparr>"
    have upd: "s\<lparr>hosts := set_connection (hosts s) rh ri cs ep\<rparr> = s'"
      unfolding set_connection_def d'_def x'_def s'_def using dr by simp
    have acl: "already_connected_links s' = already_connected_links s" by (simp add: s'_def)
    have hr: "hosts s' rh = Some d'" by (simp add: s'_def)
    have ir: "interfaces d' ri = Some x'" by (simp add: d'_def)
    have v: "is_virtual x' = is_virtual x"
      "remote x' = Some (r\<lparr>connection_status := cs, connected_endpoint := ep\<rparr>)"
      by (simp_all add: x'_def)
    have "\<exists>dl'. hosts s' lh = Some dl' \<and> interfaces dl' li = Some xl"
    proof (cases "lh = rh")
      case True
      with ne have "li \<noteq> ri" by simp
      moreover from True dl dr have "dl = d" by simp
      ultimately show ?thesis using True dl by (simp add: s'_def d'_def)
    next
      case False
      with dl show ?thesis by (simp add: s'_def)
    qed
    then obtain dl' where dl': "hosts s' lh = Some dl'" "interfaces dl' li = Some xl" by blast
    have e1: "try_link nb s lh li rh ri uid =
      (s, if already_connected_links s uid \<noteq> None then AlreadyProcessed uid
         else if is_virtual xl then VirtualIntf lh li
         else if is_virtual x then VirtualIntf rh ri
         else if remote x = None then RemoteNotPresent rh ri
         else (case connected_branch lh li ra rh ri of Inl e \<Rightarrow> Fault uid | Inr oc \<Rightarrow> oc))"
      by (rule try_link_local_connected [OF dl(1) dl(2) dl(3) a(2) dr(1) dr(2)])
    have e2: "try_link nb s' lh li rh ri uid =
      (s', if already_connected_links s' uid \<noteq> None then AlreadyProcessed uid
         else if is_virtual xl then VirtualIntf lh li
         else if is_virtual x' then VirtualIntf rh ri
         else if remote x' = None then RemoteNotPresent rh ri
         else (case connected_branch lh li ra rh ri of Inl e \<Rightarrow> Fault uid | Inr oc \<Rightarrow> oc))"
      by (rule try_link_local_connected [OF dl'(1) dl'(2) dl(3) a(2) hr ir])
    let ?oc = "if already_connected_links s uid \<noteq> None then AlreadyProcessed uid
         else if is_virtual xl then VirtualIntf lh li
         else if is_virtual x then VirtualIntf rh ri
         else (case connected_branch lh li ra rh ri of Inl e \<Rightarrow> Fault uid | Inr oc \<Rightarrow> oc)"
    have e1s: "try_link nb s lh li rh ri uid = (s, ?oc)"
      unfolding e1 using dr(3) by simp
    have e2s: "try_link nb s' lh li rh ri uid = (s', ?oc)"
      unfolding e2 acl v by simp
    from e1s t have "oc = ?oc" by simp
    with e2s show ?thesis unfolding upd by simp
  qed
  from t second third show ?thesis by blast
qed

lemma link_key_reversed: "link_key (reversed l) = link_key l"
proof (cases "canonicalize l")
  case (Inl e)
  then have "canonicalize (reversed l) = Inl TypeError"
    unfolding canonicalize_def reversed_def
    by (auto simp: Let_def split: option.splits)
  with Inl show ?thesis by (simp add: link_key_def)
next
  case (Inr t)
  obtain lh li rh ri k where t: "t = (lh, li, rh, ri, k)" by (cases t) auto
  show ?thesis
    using Inr canonicalize_reversed [of l lh li rh ri k] unfolding t
    by (simp add: link_key_def)
qed

lemma import_loop:
  "cabling_loop nb \<lparr>hosts = h, already_connected_links = Map.empty, nb_log = lg\<rparr> ls = (s, ocs, r) \<Longrightarrow>
   import_cabling_from_configs True nb h lg ls =
     (s, ocs, case r of None \<Rightarrow> RetNone | Some e \<Rightarrow> Raised e)"
  unfolding import_cabling_from_configs_def Let_def by (simp split: option.splits)

lemma import_off:
  "import_cabling_from_configs False nb h lg ls =
     (\<lparr>hosts = h, already_connected_links = Map.empty, nb_log = lg\<rparr>, [], RetFalse)"
  unfolding import_cabling_from_configs_def Let_def by simp

text \<open>
  C7. The pass leaves the inventory as it was: every interface has the remote record,
  and so the connected endpoint, it had before. Its effects are the requests added to
  the log of the system of record and the dict of processed keys.
\<close>

theorem cabling_frame:
  "hosts (fst (import_cabling_from_configs cfg nb h lg ls)) = h
   \<and> (\<exists>reqs. nb_log (fst (import_cabling_from_configs cfg nb h lg ls)) = lg @ reqs)
   \<and> (\<forall>host i. lookup_remote (hosts (fst (import_cabling_from_configs cfg nb h lg ls))) host i
        = lookup_remote h host i)"
proof (cases cfg)
  case False
  then show ?thesis by (simp add: import_off)
next
  case True
  let ?s0 = "\<lparr>hosts = h, already_connected_links = Map.empty, nb_log = lg\<rparr>"
  obtain s ocs r where lp: "cabling_loop nb ?s0 ls = (s, ocs, r)"
    using prod_cases3 by blast
  have imp: "import_cabling_from_configs cfg nb h lg ls =
     (s, ocs, case r of None \<Rightarrow> RetNone | Some e \<Rightarrow> Raised e)"
    using import_loop [OF lp] True by simp
  from loop_frame [OF lp] have "hosts s = h" "\<exists>reqs. nb_log s = lg @ reqs" by simp_all
  then show ?thesis unfolding imp by simp
qed

section \<open>Conflicts, exact matches and faults\<close>

theorem one_sided_inspection_witness:
  "lookup_remote (hosts (init_state inv_cabled)) ''sw1'' ''Gi0/1'' =
     Some \<lparr>rid = 1, connection_status = True, connected_endpoint = Some (''sw2'', ''Gi0/1'')\<rparr>
   \<and> connection_status \<lparr>rid = 1, connection_status = True,
        connected_endpoint = Some (''sw2'', ''Gi0/1'')\<rparr>
   \<and> (''sw1'', ''Gi0/1'') \<noteq> (''sw2'', ''Gi0/1'')
   \<and> (\<exists>oc. try_link accept_all (init_state inv_cabled) ''sw1'' ''Gi0/1'' ''sw2'' ''Gi0/1''
           ''sw1:Gi0/1_sw2:Gi0/1'' = (init_state inv_cabled, oc)
     \<and> try_link accept_all ((init_state inv_cabled)\<lparr>hosts :=
           set_connection (hosts (init_state inv_cabled)) ''sw2'' ''Gi0/1'' True
             (Some (''sw9'', ''Gi0/9''))\<rparr>) ''sw1'' ''Gi0/1'' ''sw2'' ''Gi0/1''
           ''sw1:Gi0/1_sw2:Gi0/1'' =
         ((init_state inv_cabled)\<lparr>hosts :=
           set_connection (hosts (init_state inv_cabled)) ''sw2'' ''Gi0/1'' True
             (Some (''sw9'', ''Gi0/9''))\<rparr>, oc)
     \<and> (\<forall>d ob. oc \<noteq> DeviceMismatch ''sw2'' ''Gi0/1'' d ob
           \<and> oc \<noteq> IntfMismatch ''sw2'' ''Gi0/1'' d ob))"
proof -
  have h1: "lookup_remote (hosts (init_state inv_cabled)) ''sw1'' ''Gi0/1'' =
     Some \<lparr>rid = 1, connection_status = True, connected_endpoint = Some (''sw2'', ''Gi0/1'')\<rparr>"
    by (simp add: lookup_remote_def lookup_intf_def run_defs)
  have h2: "connection_status \<lparr>rid = 1, connection_status = True,
        connected_endpoint = Some (''sw2'', ''Gi0/1'')\<rparr>" by simp
  have h3: "(''sw1'', ''Gi0/1'') \<noteq> (''sw2'', ''Gi0/1'')" by simp
  show ?thesis
    by (intro conjI) (rule h1, rule h2, rule h3, rule one_sided_inspection [OF h1 h2 h3])
qed

text \<open>
  C2, amended. Take a row whose local end A has a remote record that says connected, to
  an endpoint on a device other than the far end B of the row. The row creates no cable
  and leaves the state as it was. When the row reaches the comparison of the remote
  states (key not processed, both ends in the inventory, neither virtual, both with a
  remote record) the outcome is the device mismatch at A; otherwise it is the skip of
  the check that stopped it.
\<close>

theorem conflict_precedence:
  assumes "lookup_remote (hosts s) lh li = Some ra" "connection_status ra"
    "connected_endpoint ra = Some (d, n)" "d \<noteq> rh"
  shows "\<exists>oc. try_link nb s lh li rh ri uid = (s, oc) \<and> \<not> is_created oc
     \<and> (passes_validation s lh li rh ri uid \<longrightarrow> oc = DeviceMismatch lh li d rh)
     \<and> (\<not> passes_validation s lh li rh ri uid \<longrightarrow> is_skip oc)"
  using assms unfolding row_defs by (auto split: option.splits)

theorem conflict_precedence_witness:
  "lookup_remote (hosts (init_state inv_other)) ''sw1'' ''Gi0/1'' =
     Some \<lparr>rid = 1, connection_status = True, connected_endpoint = Some (''sw3'', ''Gi0/1'')\<rparr>
   \<and> ''sw3'' \<noteq> ''sw2''
   \<and> passes_validation (init_state inv_other) ''sw1'' ''Gi0/1'' ''sw2'' ''Gi0/1''
        ''sw1:Gi0/1_sw2:Gi0/1''
   \<and> try_link accept_all (init_state inv_other) ''sw1'' ''Gi0/1'' ''sw2'' ''Gi0/1''
        ''sw1:Gi0/1_sw2:Gi0/1'' =
      (init_state inv_other, DeviceMismatch ''sw1'' ''Gi0/1'' ''sw3'' ''sw2'')"
proof -
  let ?ra = "\<lparr>rid = 1, connection_status = True, connected_endpoint = Some (''sw3'', ''Gi0/1'')\<rparr>"
  have h1: "lookup_remote (hosts (init_state inv_other)) ''sw1'' ''Gi0/1'' = Some ?ra"
    by (simp add: lookup_remote_def lookup_intf_def run_defs)
  have h2: "connection_status ?ra" by simp
  have h3: "connected_endpoint ?ra = Some (''sw3'', ''Gi0/1'')" by simp
  have h4: "''sw3'' \<noteq> ''sw2''" by simp
  have pv: "passes_validation (init_state inv_other) ''sw1'' ''Gi0/1'' ''sw2'' ''Gi0/1''
        ''sw1:Gi0/1_sw2:Gi0/1''"
    by (simp add: passes_validation_def lookup_intf_def run_defs)
  from conflict_precedence [OF h1 h2 h3 h4, of accept_all "''Gi0/1''" "''sw1:Gi0/1_sw2:Gi0/1''"] pv
  have t: "try_link accept_all (init_state inv_other) ''sw1'' ''Gi0/1'' ''sw2'' ''Gi0/1''
        ''sw1:Gi0/1_sw2:Gi0/1'' =
      (init_state inv_other, DeviceMismatch ''sw1'' ''Gi0/1'' ''sw3'' ''sw2'')"
    by blast
  from h1 h4 pv t show ?thesis by blast
qed

theorem conflict_precedence_counterexample:
  "lookup_remote inv_other ''sw1'' ''Gi0/1'' =
     Some \<lparr>rid = 1, connection_status = True, connected_endpoint = Some (''sw3'', ''Gi0/1'')\<rparr>
   \<and> ''sw3'' \<noteq> ''sw9''
   \<and> import_cabling_from_configs True accept_all inv_other []
        [mk_link ''sw1'' ''Gi0/1'' ''sw9'' ''Gi0/1''] =
      (init_state inv_other, [HostNotPresent ''sw9''], RetNone)
   \<and> \<not> is_conflict (HostNotPresent ''sw9'')"
  by (simp add: lookup_remote_def lookup_intf_def run_defs)

text \<open>
  C5, amended. Take a row whose local end A has a remote record that says connected to
  exactly the far end of the row. The row creates nothing, reports no conflict and no
  fault, and leaves the state as it was, the dict of processed keys included; when it
  reaches the comparison of the remote states its outcome is AlreadyConnected. The row
  with the ends exchanged creates nothing either, and is not skipped as already
  processed: it is examined again.
\<close>

theorem exact_match_handling:
  assumes "lookup_remote (hosts s) lh li = Some ra" "connection_status ra"
    "connected_endpoint ra = Some (rh, ri)"
  shows "\<exists>oc oc'. try_link nb s lh li rh ri uid = (s, oc)
     \<and> \<not> is_created oc \<and> \<not> is_conflict oc \<and> oc \<noteq> Fault uid
     \<and> (passes_validation s lh li rh ri uid \<longrightarrow> oc = AlreadyConnected)
     \<and> try_link nb s rh ri lh li uid = (s, oc') \<and> \<not> is_created oc'
     \<and> (passes_validation s lh li rh ri uid \<longrightarrow> oc' \<noteq> AlreadyProcessed uid)"
  using assms unfolding row_defs by (auto split: option.splits)

theorem exact_match_handling_witness:
  "lookup_remote (hosts (init_state inv_cabled)) ''sw1'' ''Gi0/1'' =
     Some \<lparr>rid = 1, connection_status = True, connected_endpoint = Some (''sw2'', ''Gi0/1'')\<rparr>
   \<and> passes_validation (init_state inv_cabled) ''sw1'' ''Gi0/1'' ''sw2'' ''Gi0/1''
        ''sw1:Gi0/1_sw2:Gi0/1''
   \<and> try_link accept_all (init_state inv_cabled) ''sw1'' ''Gi0/1'' ''sw2'' ''Gi0/1''
        ''sw1:Gi0/1_sw2:Gi0/1'' = (init_state inv_cabled, AlreadyConnected)"
proof -
  let ?ra = "\<lparr>rid = 1, connection_status = True, connected_endpoint = Some (''sw2'', ''Gi0/1'')\<rparr>"
  have h1: "lookup_remote (hosts (init_state inv_cabled)) ''sw1'' ''Gi0/1'' = Some ?ra"
    by (simp add: lookup_remote_def lookup_intf_def run_defs)
  have h2: "connection_status ?ra" by simp
  have h3: "connected_endpoint ?ra = Some (''sw2'', ''Gi0/1'')" by simp
  have pv: "passes_validation (init_state inv_cabled) ''sw1'' ''Gi0/1'' ''sw2'' ''Gi0/1''
        ''sw1:Gi0/1_sw2:Gi0/1''"
    by (simp add: passes_validation_def lookup_intf_def run_defs)
  from exact_match_handling [OF h1 h2 h3, of accept_all "''sw1:Gi0/1_sw2:Gi0/1''"] pv
  have t: "try_link accept_all (init_state inv_cabled) ''sw1'' ''Gi0/1'' ''sw2'' ''Gi0/1''
        ''sw1:Gi0/1_sw2:Gi0/1'' = (init_state inv_cabled, AlreadyConnected)"
    by blast
  from h1 pv t show ?thesis by blast
qed

theorem exact_match_counterexample:
  "lookup_remote inv_cabled ''sw1'' ''Gi0/1'' =
     Some \<lparr>rid = 1, connection_status = True, connected_endpoint = Some (''sw2'', ''Gi0/1'')\<rparr>
   \<and> link_key (mk_link ''sw1'' ''Gi0/1'' ''sw2'' ''Gi0/1'') = Some ''sw1:Gi0/1_sw2:Gi0/1''
   \<and> import_cabling_from_configs True accept_all inv_cabled []
        [mk_link ''sw1'' ''Gi0/1'' ''sw2'' ''Gi0/1'', mk_link ''sw2'' ''Gi0/1'' ''sw1'' ''Gi0/1''] =
      (init_state inv_cabled, [AlreadyConnected, AlreadyConnected], RetNone)
   \<and> already_connected_links (init_state inv_cabled) ''sw1:Gi0/1_sw2:Gi0/1'' = None
   \<and> AlreadyConnected \<noteq> AlreadyProcessed ''sw1:Gi0/1_sw2:Gi0/1''"
  by (simp add: lookup_remote_def lookup_intf_def link_key_def run_defs)

theorem fault_isolation_counterexample:
  "import_cabling_from_configs True accept_all inv_free [] malformed_then_good =
     (init_state inv_free, [], Raised TypeError)
   \<and> snd (import_cabling_from_configs True accept_all inv_free [] (tl malformed_then_good)) =
     ([Created 1 2], RetNone)"
  by (simp add: malformed_then_good_def run_defs)

section \<open>Merging VLANs of two sources\<close>

lemma count_key:
  "distinct (map fst al) \<Longrightarrow>
   length (filter (\<lambda>p. fst p = k) al) = (if map_of al k = None then 0 else 1)"
proof (induction al)
  case Nil
  then show ?case by simp
next
  case (Cons p al)
  obtain a b where p: "p = (a, b)" by (cases p)
  from Cons.prems p have d: "distinct (map fst al)" and na: "a \<notin> fst ` set al" by auto
  from na have none: "map_of al a = None" by (simp add: map_of_eq_None_iff)
  from Cons.IH [OF d] none p show ?case by auto
qed

lemma add_vlan_distinct:
  "distinct (map fst (vlans st)) \<Longrightarrow> distinct (map fst (vlans (add_vlan au st v nm src)))"
  unfolding add_vlan_def
  by (auto simp: distinct_update map_of_eq_None_iff split: option.splits)

lemma add_vlan_present:
  "map_of (vlans (add_vlan au st v nm src)) v \<noteq> None"
  unfolding add_vlan_def by (auto simp: update_conv' map_add_def split: option.splits)

lemma add_vlan_keeps:
  "map_of (vlans st) k \<noteq> None \<Longrightarrow> map_of (vlans (add_vlan au st v nm src)) k \<noteq> None"
  unfolding add_vlan_def by (auto simp: update_conv' map_add_def split: option.splits)

lemma add_vlan_local:
  "\<exists>x. map_of (vlans (add_vlan au st v nm src)) v = Some x \<and> exists_locally x"
  unfolding add_vlan_def by (auto simp: update_conv' map_add_def split: option.splits)

lemma add_vlan_local_keeps:
  "\<exists>x. map_of (vlans st) k = Some x \<and> exists_locally x \<Longrightarrow>
   \<exists>x. map_of (vlans (add_vlan au st v nm src)) k = Some x \<and> exists_locally x"
  unfolding add_vlan_def by (auto simp: update_conv' map_add_def split: option.splits)

lemma config_fold:
  "distinct (map fst (vlans st)) \<Longrightarrow>
   distinct (map fst (vlans (foldl (\<lambda>s v. add_vlan au s v (f v) src) st vids)))
   \<and> (\<forall>k \<in> set vids. \<exists>x. map_of (vlans (foldl (\<lambda>s v. add_vlan au s v (f v) src) st vids)) k = Some x
          \<and> exists_locally x)
   \<and> (\<forall>k. (\<exists>x. map_of (vlans st) k = Some x \<and> exists_locally x) \<longrightarrow>
          (\<exists>x. map_of (vlans (foldl (\<lambda>s v. add_vlan au s v (f v) src) st vids)) k = Some x
          \<and> exists_locally x))"
proof (induction vids arbitrary: st)
  case Nil
  then show ?case by simp
next
  case (Cons v vids)
  let ?st = "add_vlan au st v (f v) src"
  have d: "distinct (map fst (vlans ?st))" by (rule add_vlan_distinct [OF Cons.prems])
  note ih = Cons.IH [OF d]
  have here: "\<exists>x. map_of (vlans ?st) v = Some x \<and> exists_locally x" by (rule add_vlan_local)
  have keep: "\<And>k. \<exists>x. map_of (vlans st) k = Some x \<and> exists_locally x \<Longrightarrow>
      \<exists>x. map_of (vlans ?st) k = Some x \<and> exists_locally x"
    by (rule add_vlan_local_keeps)
  let ?F = "foldl (\<lambda>s v. add_vlan au s v (f v) src) ?st vids"
  have eq: "foldl (\<lambda>s v. add_vlan au s v (f v) src) st (v # vids) = ?F" by simp
  from ih have a: "distinct (map fst (vlans ?F))"
    and b: "\<forall>k \<in> set vids. \<exists>x. map_of (vlans ?F) k = Some x \<and> exists_locally x"
    and c: "\<forall>k. (\<exists>x. map_of (vlans ?st) k = Some x \<and> exists_locally x) \<longrightarrow>
          (\<exists>x. map_of (vlans ?F) k = Some x \<and> exists_locally x)"
    by blast+
  from c here have hv: "\<exists>x. map_of (vlans ?F) v = Some x \<and> exists_locally x" by blast
  have b': "\<forall>k \<in> set (v # vids). \<exists>x. map_of (vlans ?F) k = Some x \<and> exists_locally x"
  proof
    fix k assume "k \<in> set (v # vids)"
    then have "k = v \<or> k \<in> set vids" by auto
    with hv b show "\<exists>x. map_of (vlans ?F) k = Some x \<and> exists_locally x" by blast
  qed
  have c': "\<forall>k. (\<exists>x. map_of (vlans st) k = Some x \<and> exists_locally x) \<longrightarrow>
          (\<exists>x. map_of (vlans ?F) k = Some x \<and> exists_locally x)"
    using keep c by blast
  show ?case unfolding eq using a b' c' by blast
qed

lemma cli_fold_id:
  "\<forall>c \<in> set cs. map_of (vlans s) (vlan_id c) \<noteq> None \<Longrightarrow>
   foldl (\<lambda>s v. if map_of (vlans s) (vlan_id v) = None
             then add_vlan2 (add_vlan au s (vlan_id v) (name v) CliSource) (vlan_id v) (name v)
             else s) s cs = s"
  by (induction cs) auto

text \<open>
  C8. A VLAN id imported from the configuration analysis and then from the CLI
  collection has exactly one entry in the registry of its site: after the first import
  the id is a key of the registry, so the second import leaves it out and the registry,
  the entry of the first import included, stays as it was. Two calls of add_vlan for one
  id, from the two sources, also leave exactly one entry.
\<close>

theorem vlan_merge:
  assumes "distinct (map fst (vlans st))" "v \<in> set vids" "\<forall>c \<in> set cs. vlan_id c \<in> set vids"
  shows "vlan_count (import_vlans_from_configs ''config'' au st vids) v = 1
     \<and> import_vlans_from_cmds ''cli'' au add_vlan2
          (import_vlans_from_configs ''config'' au st vids) cs =
        import_vlans_from_configs ''config'' au st vids
     \<and> vlan_count (import_vlans_from_cmds ''cli'' au add_vlan2
          (import_vlans_from_configs ''config'' au st vids) cs) v = 1
     \<and> (\<exists>x. map_of (vlans (import_vlans_from_cmds ''cli'' au add_vlan2
          (import_vlans_from_configs ''config'' au st vids) cs)) v = Some x \<and> exists_locally x)
     \<and> vlan_count (add_vlan au (add_vlan au st v nm ConfigSource) v nm' CliSource) v = 1"
proof -
  let ?s1 = "import_vlans_from_configs ''config'' au st vids"
  let ?f = "foldl (\<lambda>s v. add_vlan au s v (''vlan-'' @ str_int v) ConfigSource) st vids"
  have s1: "?s1 = ?f" by (simp add: import_vlans_from_configs_def)
  from config_fold [OF assms(1), of au "\<lambda>v. ''vlan-'' @ str_int v" ConfigSource vids]
  have d: "distinct (map fst (vlans ?s1))"
    and p: "\<forall>k \<in> set vids. \<exists>x. map_of (vlans ?s1) k = Some x \<and> exists_locally x"
    unfolding s1 by blast+
  from p assms(2) have pv: "\<exists>x. map_of (vlans ?s1) v = Some x \<and> exists_locally x" by blast
  have c1: "vlan_count ?s1 v = 1"
    unfolding vlan_count_def using count_key [OF d, of v] pv by auto
  from p assms(3) have "\<forall>c \<in> set cs. map_of (vlans ?s1) (vlan_id c) \<noteq> None" by fastforce
  from cli_fold_id [OF this, of add_vlan2 au]
  have same: "import_vlans_from_cmds ''cli'' au add_vlan2 ?s1 cs = ?s1"
    by (simp add: import_vlans_from_cmds_def)
  have d2: "distinct (map fst (vlans (add_vlan au (add_vlan au st v nm ConfigSource) v nm' CliSource)))"
    by (intro add_vlan_distinct assms(1))
  have c2: "vlan_count (add_vlan au (add_vlan au st v nm ConfigSource) v nm' CliSource) v = 1"
    unfolding vlan_count_def using count_key [OF d2, of v]
      add_vlan_present [of au "add_vlan au st v nm ConfigSource" v nm' CliSource] by auto
  from c1 same pv c2 show ?thesis by simp
qed

theorem vlan_merge_witness:
  "distinct (map fst (vlans dc1)) \<and> (100::int) \<in> set [100]
   \<and> vlan_id \<lparr>vlan_id = 100, name = ''prod''\<rparr> \<in> set [100::int]
   \<and> vlan_count (import_vlans_from_cmds ''cli'' (\<lambda>src. True) (\<lambda>s v n. s)
        (import_vlans_from_configs ''config'' (\<lambda>src. True) dc1 [100])
        [\<lparr>vlan_id = 100, name = ''prod''\<rparr>]) 100 = 1
   \<and> vlans (import_vlans_from_cmds ''cli'' (\<lambda>src. True) (\<lambda>s v n. s)
        (import_vlans_from_configs ''config'' (\<lambda>src. True) dc1 [100])
        [\<lparr>vlan_id = 100, name = ''prod''\<rparr>]) =
      [(100, \<lparr>vid = 100, vlan_name = ''vlan-100'', exists_locally = True,
               exists_remotely = False\<rparr>)]"
proof -
  have h1: "distinct (map fst (vlans dc1))" by (simp add: dc1_def)
  have h2: "(100::int) \<in> set [100]" by simp
  have h3: "\<forall>c \<in> set [\<lparr>vlan_id = 100, name = ''prod''\<rparr>]. vlan_id c \<in> set [100::int]" by simp
  have e: "vlans (import_vlans_from_cmds ''cli'' (\<lambda>src. True) (\<lambda>s v n. s)
        (import_vlans_from_configs ''config'' (\<lambda>src. True) dc1 [100])
        [\<lparr>vlan_id = 100, name = ''prod''\<rparr>]) =
      [(100, \<lparr>vid = 100, vlan_name = ''vlan-100'', exists_locally = True,
               exists_remotely = False\<rparr>)]"
    by (simp add: import_vlans_from_cmds_def import_vlans_from_configs_def add_vlan_def
        dc1_def str_int_def)
  from vlan_merge [OF h1 h2 h3, of "\<lambda>src. True" "\<lambda>s v n. s" "''prod''" "''prod''"]
  have c: "vlan_count (import_vlans_from_cmds ''cli'' (\<lambda>src. True) (\<lambda>s v n. s)
        (import_vlans_from_configs ''config'' (\<lambda>src. True) dc1 [100])
        [\<lparr>vlan_id = 100, name = ''prod''\<rparr>]) 100 = 1"
    by blast
  have h3': "vlan_id \<lparr>vlan_id = 100, name = ''prod''\<rparr> \<in> set [100::int]" by simp
  from h1 h2 h3' c e show ?thesis by blast
qed

section \<open>Requests sent and faults caught\<close>

lemma process_link_log:
  assumes "process_link nb s lh li rh ri uid = (s', r)"
  shows "(nb_log s' = nb_log s \<and> (\<exists>oc. r = Inr oc \<and> \<not> is_created oc))
       \<or> (nb_log s' = nb_log s \<and> r = Inl AttributeError)
       \<or> (\<exists>req. r = Inl RequestError \<and> \<not> nb (nb_log s) req
             \<and> nb_log s' = nb_log s @ [(req, False)])
       \<or> (\<exists>a b. r = Inr (Created a b) \<and> nb_log s' = nb_log s @ [((a, b), True)])"
  using assms unfolding process_link_def connected_branch_def
  by (auto split: option.splits if_splits)

lemma try_link_log:
  assumes "try_link nb s lh li rh ri uid = (s', oc)"
  shows "(nb_log s' = nb_log s \<and> \<not> is_created oc)
       \<or> (\<exists>req. oc = Fault uid \<and> \<not> nb (nb_log s) req
             \<and> nb_log s' = nb_log s @ [(req, False)])
       \<or> (\<exists>a b. oc = Created a b \<and> nb_log s' = nb_log s @ [((a, b), True)])"
proof -
  obtain r where p: "process_link nb s lh li rh ri uid = (s', r)"
    and o: "oc = (case r of Inl e \<Rightarrow> Fault uid | Inr x \<Rightarrow> x)"
    using assms unfolding try_link_def by (auto split: prod.splits sum.splits)
  from process_link_log [OF p] o show ?thesis by auto
qed

lemma created_of_not: "\<not> is_created oc \<Longrightarrow> created_of (oc # ocs) = created_of ocs"
  by (cases oc) simp_all

lemma loop_log:
  "cabling_loop nb s ls = (s', ocs, r) \<Longrightarrow>
   \<exists>new. nb_log s' = nb_log s @ new \<and> map fst (filter snd new) = created_of ocs
     \<and> ((\<forall>lg req. nb lg req) \<longrightarrow> new = map (\<lambda>q. (q, True)) (created_of ocs))"
proof (induction ls arbitrary: s s' ocs r)
  case Nil
  then show ?case by simp
next
  case (Cons l ls)
  show ?case
  proof (cases "canonicalize l")
    case (Inl e)
    with Cons.prems show ?thesis by auto
  next
    case (Inr t)
    obtain lh li rh ri uid where t: "t = (lh, li, rh, ri, uid)" by (cases t) auto
    obtain s1 oc where tl: "try_link nb s lh li rh ri uid = (s1, oc)"
      using prod.exhaust by blast
    obtain s2 ocs2 r2 where lp: "cabling_loop nb s1 ls = (s2, ocs2, r2)"
      using prod_cases3 by blast
    from Cons.prems Inr t tl lp have eq: "s' = s2" "ocs = oc # ocs2" "r = r2" by simp_all
    from Cons.IH [OF lp] obtain new2 where
      n2: "nb_log s2 = nb_log s1 @ new2" "map fst (filter snd new2) = created_of ocs2"
        "(\<forall>lg req. nb lg req) \<longrightarrow> new2 = map (\<lambda>q. (q, True)) (created_of ocs2)"
      by blast
    from try_link_log [OF tl]
    consider (same) "nb_log s1 = nb_log s" "\<not> is_created oc"
      | (fault) req where "oc = Fault uid" "\<not> nb (nb_log s) req"
          "nb_log s1 = nb_log s @ [(req, False)]"
      | (made) a b where "oc = Created a b" "nb_log s1 = nb_log s @ [((a, b), True)]"
      by blast
    then show ?thesis
    proof cases
      case same
      have "nb_log s' = nb_log s @ new2" using n2(1) same(1) eq(1) by simp
      moreover have "created_of ocs = created_of ocs2"
        using same(2) eq(2) by (simp add: created_of_not)
      ultimately show ?thesis using n2(2) n2(3) by auto
    next
      case fault
      let ?new = "(req, False) # new2"
      have a: "nb_log s' = nb_log s @ ?new" using n2(1) fault(3) eq(1) by simp
      have b: "map fst (filter snd ?new) = created_of ocs"
        using n2(2) fault(1) eq(2) by simp
      have c: "(\<forall>lg req. nb lg req) \<longrightarrow> ?new = map (\<lambda>q. (q, True)) (created_of ocs)"
        using fault(2) by blast
      from a b c show ?thesis by blast
    next
      case made
      let ?new = "((a, b), True) # new2"
      have a: "nb_log s' = nb_log s @ ?new" using n2(1) made(2) eq(1) by simp
      have b: "map fst (filter snd ?new) = created_of ocs"
        using n2(2) made(1) eq(2) by simp
      have c: "(\<forall>lg req. nb lg req) \<longrightarrow> ?new = map (\<lambda>q. (q, True)) (created_of ocs)"
        using n2(3) made(1) eq(2) by simp
      show ?thesis
      proof (intro exI conjI)
        show "nb_log s' = nb_log s @ ?new" by (rule a)
        show "map fst (filter snd ?new) = created_of ocs" by (rule b)
        show "(\<forall>lg req. nb lg req) \<longrightarrow> ?new = map (\<lambda>q. (q, True)) (created_of ocs)"
          by (rule c)
      qed
    qed
  qed
qed

lemma loop_append:
  "cabling_loop nb s xs = (s1, o1, None) \<Longrightarrow>
   cabling_loop nb s (xs @ ys) =
     (case cabling_loop nb s1 ys of (s2, o2, r) \<Rightarrow> (s2, o1 @ o2, r))"
proof (induction xs arbitrary: s o1)
  case Nil
  then show ?case by (simp split: prod.splits)
next
  case (Cons l xs)
  show ?case
  proof (cases "canonicalize l")
    case (Inl e)
    with Cons.prems show ?thesis by simp
  next
    case (Inr t)
    obtain lh li rh ri uid where t: "t = (lh, li, rh, ri, uid)" by (cases t) auto
    obtain sa oc where tl: "try_link nb s lh li rh ri uid = (sa, oc)"
      using prod.exhaust by blast
    obtain sb ob rb where lp: "cabling_loop nb sa xs = (sb, ob, rb)"
      using prod_cases3 by blast
    from Cons.prems Inr t tl lp have eq: "s1 = sb" "o1 = oc # ob" "rb = None" by simp_all
    from lp eq have lp': "cabling_loop nb sa xs = (s1, ob, None)" by simp
    from Cons.IH [OF lp'] have ih: "cabling_loop nb sa (xs @ ys) =
      (case cabling_loop nb s1 ys of (s2, o2, r) \<Rightarrow> (s2, ob @ o2, r))" .
    show ?thesis
      by (simp add: Inr t tl ih eq(2) split: prod.splits)
  qed
qed

lemma loop_row:
  assumes wf: "\<forall>l \<in> set ls. interface (Interface l) \<noteq> None \<and> interface (Remote_Interface l) \<noteq> None"
    and i: "i < length ls"
    and run: "cabling_loop nb s ls = (s', ocs, r)"
    and c: "canonicalize (ls ! i) = Inr (lh, li, rh, ri, uid)"
  shows "try_link nb (state_before nb s ls i) lh li rh ri uid =
           (state_before nb s ls (Suc i), ocs ! i)"
proof -
  have wfi: "\<forall>l \<in> set (take i ls). interface (Interface l) \<noteq> None \<and> interface (Remote_Interface l) \<noteq> None"
    using wf by (meson in_set_takeD)
  from loop_complete [OF wfi, of nb s] obtain si oi where
    pi: "cabling_loop nb s (take i ls) = (si, oi, None)"
    and li: "list_all2 (\<lambda>l oc. \<forall>k. oc = Fault k \<longrightarrow> link_key l = Some k) (take i ls) oi"
    by blast
  from li i have len: "length oi = i" by (simp add: list_all2_lengthD [symmetric])
  have sb: "state_before nb s ls i = si" by (simp add: state_before_def pi)
  obtain sa oc where tl: "try_link nb si lh li rh ri uid = (sa, oc)"
    using prod.exhaust by blast
  have one: "cabling_loop nb si [ls ! i] = (sa, [oc], None)" by (simp add: c tl)
  have "take (Suc i) ls = take i ls @ [ls ! i]" using i by (rule take_Suc_conv_app_nth)
  then have "cabling_loop nb s (take (Suc i) ls) = (sa, oi @ [oc], None)"
    using loop_append [OF pi, of "[ls ! i]"] one by simp
  then have sb': "state_before nb s ls (Suc i) = sa" by (simp add: state_before_def)
  obtain sr orest rr where rest: "cabling_loop nb sa (drop (Suc i) ls) = (sr, orest, rr)"
    using prod_cases3 by blast
  have more: "cabling_loop nb si (ls ! i # drop (Suc i) ls) = (sr, oc # orest, rr)"
    by (simp add: c tl rest)
  have "ls = take i ls @ ls ! i # drop (Suc i) ls" using i by (rule id_take_nth_drop)
  then have "cabling_loop nb s ls = (sr, oi @ oc # orest, rr)"
    using loop_append [OF pi, of "ls ! i # drop (Suc i) ls"] more by simp
  with run have "ocs = oi @ oc # orest" by simp
  with len have "ocs ! i = oc" using nth_append_length [of oi oc orest] by simp
  with tl sb sb' show ?thesis by simp
qed

text \<open>
  C1, amended. In one pass at most one cable is created for a key, whatever the rows
  and whatever the system of record answers; a row and the row with its ends exchanged
  have the same key, so a link seen in both directions is created at most once. The
  requests the system of record accepted are those of the Created outcomes, in order;
  when it rejects none, the pass sends no other request, so at most one per key. (A
  request that is rejected leaves the key unmarked, and a later row of the same link
  sends a request again.) When every row is already connected in the inventory, the
  pass creates nothing and sends no request.
\<close>

theorem cabling_idempotence:
  "creates_for k ls (fst (snd (import_cabling_from_configs cfg nb h lg ls))) \<le> 1
   \<and> link_key (reversed l) = link_key l
   \<and> (\<exists>new. nb_log (fst (import_cabling_from_configs cfg nb h lg ls)) = lg @ new
        \<and> map fst (filter snd new) =
            created_of (fst (snd (import_cabling_from_configs cfg nb h lg ls)))
        \<and> ((\<forall>lg' req. nb lg' req) \<longrightarrow>
             new = map (\<lambda>q. (q, True))
               (created_of (fst (snd (import_cabling_from_configs cfg nb h lg ls))))))
   \<and> ((\<forall>x \<in> set ls. link_connected h x) \<longrightarrow>
        (\<forall>oc \<in> set (fst (snd (import_cabling_from_configs cfg nb h lg ls))). \<not> is_created oc)
        \<and> nb_log (fst (import_cabling_from_configs cfg nb h lg ls)) = lg)"
proof (cases cfg)
  case False
  then show ?thesis by (simp add: import_off creates_for_def link_key_reversed)
next
  case True
  let ?s0 = "\<lparr>hosts = h, already_connected_links = Map.empty, nb_log = lg\<rparr>"
  obtain s ocs r where lp: "cabling_loop nb ?s0 ls = (s, ocs, r)"
    using prod_cases3 by blast
  have imp: "import_cabling_from_configs cfg nb h lg ls =
     (s, ocs, case r of None \<Rightarrow> RetNone | Some e \<Rightarrow> Raised e)"
    using import_loop [OF lp] True by simp
  have one: "creates_for k ls ocs \<le> 1" by (rule loop_creates_le1 [OF lp])
  have two: "(\<forall>x \<in> set ls. link_connected h x) \<longrightarrow> (\<forall>oc \<in> set ocs. \<not> is_created oc) \<and> nb_log s = lg"
  proof
    assume "\<forall>x \<in> set ls. link_connected h x"
    then have "\<forall>x \<in> set ls. link_connected (hosts ?s0) x" by simp
    from loop_connected [OF this lp] show "(\<forall>oc \<in> set ocs. \<not> is_created oc) \<and> nb_log s = lg"
      by simp
  qed
  from loop_log [OF lp]
  have three: "\<exists>new. nb_log s = lg @ new \<and> map fst (filter snd new) = created_of ocs
     \<and> ((\<forall>lg' req. nb lg' req) \<longrightarrow> new = map (\<lambda>q. (q, True)) (created_of ocs))"
    by simp
  have four: "link_key (reversed l) = link_key l" by (rule link_key_reversed)
  show ?thesis unfolding imp fst_conv snd_conv
    by (intro conjI) (rule one, rule four, rule three, rule two)
qed

theorem cabling_idempotence_witness:
  "list_all (link_connected inv_cabled) both_ways
   \<and> list_all (\<lambda>oc. \<not> is_created oc)
        (fst (snd (import_cabling_from_configs True accept_all inv_cabled [] both_ways)))
   \<and> nb_log (fst (import_cabling_from_configs True accept_all inv_cabled [] both_ways)) = []
   \<and> (\<forall>lg' req. accept_all lg' req)
   \<and> nb_log (fst (import_cabling_from_configs True accept_all inv_free [] both_ways)) =
        map (\<lambda>q. (q, True))
          (created_of (fst (snd (import_cabling_from_configs True accept_all inv_free [] both_ways))))
   \<and> creates_for ''sw1:Gi0/1_sw2:Gi0/1'' both_ways
        (fst (snd (import_cabling_from_configs True accept_all inv_free [] both_ways))) \<le> 1
   \<and> fst (snd (import_cabling_from_configs True accept_all inv_free [] both_ways)) =
        [Created 1 2, AlreadyProcessed ''sw1:Gi0/1_sw2:Gi0/1'']
   \<and> nb_log (fst (import_cabling_from_configs True accept_all inv_free [] both_ways)) =
        [((1, 2), True)]"
proof -
  have h: "\<forall>x \<in> set both_ways. link_connected inv_cabled x"
    by (simp add: run_defs link_connected_def lookup_remote_def lookup_intf_def)
  have acc: "\<forall>lg' req. accept_all lg' req" by (simp add: accept_all_def)
  note t1 = cabling_idempotence [of "''k''" both_ways True accept_all inv_cabled "[]" "hd both_ways"]
  note t2 = cabling_idempotence [of "''sw1:Gi0/1_sw2:Gi0/1''" both_ways True accept_all
      inv_free "[]" "hd both_ways"]
  have a: "(\<forall>oc \<in> set (fst (snd (import_cabling_from_configs True accept_all inv_cabled [] both_ways))).
         \<not> is_created oc)
     \<and> nb_log (fst (import_cabling_from_configs True accept_all inv_cabled [] both_ways)) = []"
    using t1 h by blast
  have b: "creates_for ''sw1:Gi0/1_sw2:Gi0/1'' both_ways
        (fst (snd (import_cabling_from_configs True accept_all inv_free [] both_ways))) \<le> 1"
    using t2 by blast
  from t2 obtain new where
    n: "nb_log (fst (import_cabling_from_configs True accept_all inv_free [] both_ways)) = [] @ new"
    "(\<forall>lg' req. accept_all lg' req) \<longrightarrow> new = map (\<lambda>q. (q, True))
          (created_of (fst (snd (import_cabling_from_configs True accept_all inv_free [] both_ways))))"
    by blast
  from n acc have d: "nb_log (fst (import_cabling_from_configs True accept_all inv_free [] both_ways)) =
        map (\<lambda>q. (q, True))
          (created_of (fst (snd (import_cabling_from_configs True accept_all inv_free [] both_ways))))"
    by simp
  have c: "fst (snd (import_cabling_from_configs True accept_all inv_free [] both_ways)) =
        [Created 1 2, AlreadyProcessed ''sw1:Gi0/1_sw2:Gi0/1'']"
    by (simp add: run_defs)
  have e: "nb_log (fst (import_cabling_from_configs True accept_all inv_free [] both_ways)) =
        [((1, 2), True)]"
    by (simp add: run_defs)
  have h': "list_all (link_connected inv_cabled) both_ways" using h by (simp add: list_all_iff)
  have a1: "list_all (\<lambda>oc. \<not> is_created oc)
        (fst (snd (import_cabling_from_configs True accept_all inv_cabled [] both_ways)))"
    using a by (simp add: list_all_iff)
  from a have a2: "nb_log (fst (import_cabling_from_configs True accept_all inv_cabled [] both_ways)) = []"
    by blast
  show ?thesis
    by (intro conjI) (rule h', rule a1, rule a2, rule acc, rule d, rule b, rule c, rule e)
qed

theorem cabling_idempotence_counterexample:
  "link_key (both_ways ! 0) = Some ''sw1:Gi0/1_sw2:Gi0/1''
   \<and> link_key (both_ways ! 1) = Some ''sw1:Gi0/1_sw2:Gi0/1''
   \<and> both_ways ! 1 = reversed (both_ways ! 0)
   \<and> fst (snd (import_cabling_from_configs True reject_first inv_free [] both_ways)) =
        [Fault ''sw1:Gi0/1_sw2:Gi0/1'', Created 2 1]
   \<and> nb_log (fst (import_cabling_from_configs True reject_first inv_free [] both_ways)) =
        [((1, 2), False), ((2, 1), True)]"
  by (simp add: link_key_def reversed_def run_defs)

text \<open>
  C9, amended. When the interface names of all rows are strings, the pass goes through
  every row and returns, with one outcome for each row. Whenever the body of the try
  raises at a row (a record that says connected and names no endpoint, a creation call
  that raises), in the state the pass has reached there, the outcome of that row is
  Fault with the key of the row and the pass takes up the next row in the state the
  body left; and a Fault outcome always carries the key of its row.
\<close>

theorem fault_isolation:
  assumes wf: "\<forall>l \<in> set ls. interface (Interface l) \<noteq> None \<and> interface (Remote_Interface l) \<noteq> None"
  shows "\<exists>s ocs. import_cabling_from_configs True nb h lg ls = (s, ocs, RetNone)
     \<and> length ocs = length ls
     \<and> (\<forall>i < length ls. \<forall>k. ocs ! i = Fault k \<longrightarrow> link_key (ls ! i) = Some k)
     \<and> (\<forall>i < length ls. \<forall>lh li rh ri uid s2 e.
           canonicalize (ls ! i) = Inr (lh, li, rh, ri, uid) \<longrightarrow>
           process_link nb
             (state_before nb \<lparr>hosts = h, already_connected_links = Map.empty, nb_log = lg\<rparr> ls i)
             lh li rh ri uid = (s2, Inl e) \<longrightarrow>
           ocs ! i = Fault uid
           \<and> state_before nb \<lparr>hosts = h, already_connected_links = Map.empty, nb_log = lg\<rparr>
                ls (Suc i) = s2)"
proof -
  let ?s0 = "\<lparr>hosts = h, already_connected_links = Map.empty, nb_log = lg\<rparr>"
  from loop_complete [OF wf, of nb ?s0] obtain s ocs where
    lp: "cabling_loop nb ?s0 ls = (s, ocs, None)"
    and fk: "list_all2 (\<lambda>l oc. \<forall>k. oc = Fault k \<longrightarrow> link_key l = Some k) ls ocs" by blast
  from import_loop [OF lp]
  have imp: "import_cabling_from_configs True nb h lg ls = (s, ocs, RetNone)" by simp
  from fk have len: "length ocs = length ls" by (simp add: list_all2_lengthD)
  from fk have idx: "\<forall>i < length ls. \<forall>k. ocs ! i = Fault k \<longrightarrow> link_key (ls ! i) = Some k"
    by (simp add: list_all2_conv_all_nth)
  have caught: "\<forall>i < length ls. \<forall>lh li rh ri uid s2 e.
           canonicalize (ls ! i) = Inr (lh, li, rh, ri, uid) \<longrightarrow>
           process_link nb (state_before nb ?s0 ls i) lh li rh ri uid = (s2, Inl e) \<longrightarrow>
           ocs ! i = Fault uid \<and> state_before nb ?s0 ls (Suc i) = s2"
  proof (intro allI impI)
    fix i lh li rh ri uid s2 e
    assume i: "i < length ls"
      and c: "canonicalize (ls ! i) = Inr (lh, li, rh, ri, uid)"
      and p: "process_link nb (state_before nb ?s0 ls i) lh li rh ri uid = (s2, Inl e)"
    from loop_row [OF wf i lp c]
    have "try_link nb (state_before nb ?s0 ls i) lh li rh ri uid =
           (state_before nb ?s0 ls (Suc i), ocs ! i)" .
    with p show "ocs ! i = Fault uid \<and> state_before nb ?s0 ls (Suc i) = s2"
      by (simp add: try_link_def)
  qed
  show ?thesis
    by (intro exI conjI) (rule imp, rule len, rule idx, rule caught)
qed

theorem fault_isolation_witness:
  "list_all (\<lambda>l. interface (Interface l) \<noteq> None \<and> interface (Remote_Interface l) \<noteq> None)
     broken_then_good
   \<and> canonicalize (broken_then_good ! 0) =
       Inr (''sw1'', ''Gi0/1'', ''sw2'', ''Gi0/1'', ''sw1:Gi0/1_sw2:Gi0/1'')
   \<and> process_link accept_all
        (state_before accept_all
           \<lparr>hosts = inv_broken, already_connected_links = Map.empty, nb_log = []\<rparr>
           broken_then_good 0)
        ''sw1'' ''Gi0/1'' ''sw2'' ''Gi0/1'' ''sw1:Gi0/1_sw2:Gi0/1'' =
       (init_state inv_broken, Inl AttributeError)
   \<and> fst (snd (import_cabling_from_configs True accept_all inv_broken [] broken_then_good)) ! 0 =
       Fault ''sw1:Gi0/1_sw2:Gi0/1''
   \<and> snd (import_cabling_from_configs True accept_all inv_broken [] broken_then_good) =
        ([Fault ''sw1:Gi0/1_sw2:Gi0/1'', Created 2 3], RetNone)
   \<and> snd (import_cabling_from_configs True reject_first inv_free [] both_ways) =
        ([Fault ''sw1:Gi0/1_sw2:Gi0/1'', Created 2 1], RetNone)"
proof -
  let ?s0 = "\<lparr>hosts = inv_broken, already_connected_links = Map.empty, nb_log = []\<rparr>"
  have h: "\<forall>l \<in> set broken_then_good.
      interface (Interface l) \<noteq> None \<and> interface (Remote_Interface l) \<noteq> None"
    by (simp add: broken_then_good_def mk_link_def)
  have h': "list_all (\<lambda>l. interface (Interface l) \<noteq> None \<and> interface (Remote_Interface l) \<noteq> None)
     broken_then_good"
    using h by (simp add: list_all_iff)
  have i: "0 < length broken_then_good" by (simp add: broken_then_good_def)
  have c: "canonicalize (broken_then_good ! 0) =
       Inr (''sw1'', ''Gi0/1'', ''sw2'', ''Gi0/1'', ''sw1:Gi0/1_sw2:Gi0/1'')"
    by (simp add: broken_then_good_def run_defs)
  have p: "process_link accept_all (state_before accept_all ?s0 broken_then_good 0)
        ''sw1'' ''Gi0/1'' ''sw2'' ''Gi0/1'' ''sw1:Gi0/1_sw2:Gi0/1'' =
       (init_state inv_broken, Inl AttributeError)"
    by (simp add: state_before_def run_defs)
  from fault_isolation [OF h, of accept_all inv_broken "[]"] obtain s ocs where
    r: "import_cabling_from_configs True accept_all inv_broken [] broken_then_good = (s, ocs, RetNone)"
    and k: "\<forall>i < length broken_then_good. \<forall>lh li rh ri uid s2 e.
           canonicalize (broken_then_good ! i) = Inr (lh, li, rh, ri, uid) \<longrightarrow>
           process_link accept_all (state_before accept_all ?s0 broken_then_good i)
             lh li rh ri uid = (s2, Inl e) \<longrightarrow>
           ocs ! i = Fault uid \<and> state_before accept_all ?s0 broken_then_good (Suc i) = s2"
    by blast
  from k i c p have "ocs ! 0 = Fault ''sw1:Gi0/1_sw2:Gi0/1''" by blast
  with r have f: "fst (snd (import_cabling_from_configs True accept_all inv_broken []
       broken_then_good)) ! 0 = Fault ''sw1:Gi0/1_sw2:Gi0/1''" by simp
  have e1: "snd (import_cabling_from_configs True accept_all inv_broken [] broken_then_good) =
        ([Fault ''sw1:Gi0/1_sw2:Gi0/1'', Created 2 3], RetNone)"
    by (simp add: broken_then_good_def run_defs)
  have e2: "snd (import_cabling_from_configs True reject_first inv_free [] both_ways) =
        ([Fault ''sw1:Gi0/1_sw2:Gi0/1'', Created 2 1], RetNone)"
    by (simp add: run_defs)
  show ?thesis
    by (intro conjI) (rule h', rule c, rule p, rule f, rule e1, rule e2)
qed

end
